(* ===== verification/Prelude.thy ===== *)
theory Prelude
  imports Main "HOL-Library.Word" "HOL-Library.Char_ord" "HOL-Library.List_Lexorder"
begin

unbundle bit_operations_syntax

text \<open>
  Shared vocabulary of the development: the machine types of the Go program, the result type
  of an operation that can return an error or panic, the reply of an HTTP handler, and the
  generic facts on words, lists and options that the component theories use.
\<close>

named_theorems go_defs \<open>definitions of small operations, unfolded by component proofs\<close>
named_theorems frame \<open>what an operation leaves unchanged\<close>

section \<open>Types\<close>

type_synonym byte = "8 word"
type_synonym bytes = "byte list"
type_synonym u64 = "64 word"
type_synonym i64 = "64 word"

text \<open>
  A Go call returns a value, returns an error, or panics.  The three are kept apart, so that
  "never panics" is a statement of the model.
\<close>

datatype ('e, 'a) go_result = Ok 'a | Err 'e | Panic

text \<open>The sequence "if err != nil, return it; else go on".\<close>

fun and_then :: "('e, 'a) go_result \<Rightarrow> ('a \<Rightarrow> ('e, 'b) go_result) \<Rightarrow> ('e, 'b) go_result" where
  "and_then (Ok x) f = f x"
| "and_then (Err e) f = Err e"
| "and_then Panic f = Panic"

lemma and_then_Ok: "and_then r f = Ok y \<longleftrightarrow> (\<exists>x. r = Ok x \<and> f x = Ok y)"
  by (cases r) auto

text \<open>
  An HTTP handler answers with a status and a body, with a status and an error code (the
  \<open>error\<close> field of the JSON body; its human-readable \<open>message\<close> is left out), with a bare
  status, or panics, on which the server aborts the connection.
\<close>

datatype 'a http_reply = Reply nat 'a | ErrorReply nat string | NoContent nat | Aborted

fun http_status :: "'a http_reply \<Rightarrow> nat option" where
  "http_status (Reply s b) = Some s"
| "http_status (ErrorReply s c) = Some s"
| "http_status (NoContent s) = Some s"
| "http_status Aborted = None"

text \<open>Go strings are byte strings; \<open>string\<close> (a list of 8-bit characters) is the same thing.\<close>

definition bytes_of :: "string \<Rightarrow> bytes" where
  "bytes_of s = map of_char s"

definition string_of :: "bytes \<Rightarrow> string" where
  "string_of bs = map (\<lambda>b. char_of (unat b)) bs"

lemma unat_of_char [simp]: "unat (of_char c :: byte) = of_char c"
proof -
  have "(of_char c :: nat) < 2 ^ 8" by simp
  then have "unat (of_nat (of_char c) :: byte) = of_char c"
    by (simp add: unat_of_nat take_bit_nat_eq_self)
  then show ?thesis by (simp add: of_nat_of_char)
qed

lemma of_char_word_inj: "(of_char c :: byte) = of_char d \<longleftrightarrow> c = d"
  by (metis unat_of_char of_char_eq_iff)

lemma bytes_of_inj [simp]: "bytes_of s = bytes_of t \<longleftrightarrow> s = t"
  unfolding bytes_of_def by (rule inj_map_eq_map) (simp add: inj_def of_char_word_inj)

lemma length_bytes_of [simp]: "length (bytes_of s) = length s"
  by (simp add: bytes_of_def)

section \<open>Words\<close>

lemma even_u64: "even (x :: u64) \<longleftrightarrow> even (unat x)"
proof -
  have "unat (x mod 2) = unat x mod 2" by (simp add: unat_mod)
  then show ?thesis by (metis even_iff_mod_2_eq_zero unat_eq_zero)
qed

lemma u64_odd [simp]: "(x AND 1 = (1 :: u64)) \<longleftrightarrow> odd (unat x)"
  by (simp add: and_one_eq even_u64 mod2_eq_if)

lemma u64_even [simp]: "(x AND 1 = (0 :: u64)) \<longleftrightarrow> even (unat x)"
  by (simp add: and_one_eq even_u64 mod2_eq_if)

lemma unat_u64_half [simp]: "unat (drop_bit (Suc 0) (x :: u64)) = unat x div 2"
  by (simp add: drop_bit_Suc unat_div)

lemma unat_u64_pred: "x \<noteq> 0 \<Longrightarrow> unat (x - 1 :: u64) = unat x - 1"
  by (simp add: unat_minus_one)

lemma unat_u64_of_nat: "n < 2 ^ 64 \<Longrightarrow> unat (of_nat n :: u64) = n"
  by (simp add: unat_of_nat take_bit_nat_eq_self)

section \<open>Lists\<close>

lemma append_split_length:
  "length a = length c \<Longrightarrow> a @ b = c @ d \<longleftrightarrow> a = c \<and> b = d"
  by simp

lemma take_prefix_snoc: "n \<le> length xs \<Longrightarrow> take n (xs @ ys) = take n xs"
  by simp

end
