(* ===== verification/Encoding.thy ===== *)
theory Encoding
  imports Prelude
begin

text \<open>
  The parts of Go's \<open>encoding/hex\<close> and \<open>strconv\<close> that the program uses: hexadecimal
  encoding and strict decoding of byte strings, decimal formatting, and \<open>ParseUint\<close>
  with its 64-bit range check.  The round-trip lemmas are the facts the components rely on.
\<close>

section \<open>Digits\<close>

definition digit_char :: "nat \<Rightarrow> char" where
  "digit_char n = (''0123456789abcdef'' ! n)"

text \<open>\<open>fromHexChar\<close> of \<open>encoding/hex\<close>: both letter cases are accepted.\<close>

definition from_hex_char :: "char \<Rightarrow> nat option" where
  "from_hex_char c =
    (let n = of_char c :: nat
     in if 48 \<le> n \<and> n \<le> 57 then Some (n - 48)
        else if 97 \<le> n \<and> n \<le> 102 then Some (n - 87)
        else if 65 \<le> n \<and> n \<le> 70 then Some (n - 55)
        else None)"

lemma from_hex_digit_char [simp]: "n < 16 \<Longrightarrow> from_hex_char (digit_char n) = Some n"
proof -
  have "list_all (\<lambda>n. from_hex_char (digit_char n) = Some n) [0..<16]" by code_simp
  then show "n < 16 \<Longrightarrow> ?thesis" by (simp add: list_all_iff)
qed

lemma from_hex_char_bound: "from_hex_char c = Some n \<Longrightarrow> n < 16"
  by (auto simp: from_hex_char_def Let_def split: if_splits)

section \<open>Hexadecimal\<close>

fun hexEncode :: "bytes \<Rightarrow> string" where
  "hexEncode [] = []"
| "hexEncode (b # bs) =
    digit_char (unat (drop_bit 4 b)) # digit_char (unat (b AND 0x0f)) # hexEncode bs"

text \<open>\<open>hex.DecodeString\<close>; \<open>None\<close> for an invalid digit or an odd length.\<close>

fun hexDecode :: "string \<Rightarrow> bytes option" where
  "hexDecode [] = Some []"
| "hexDecode [c] = None"
| "hexDecode (c # d # s) =
    (case (from_hex_char c, from_hex_char d) of
       (Some h, Some l) \<Rightarrow> map_option ((#) (of_nat (16 * h + l))) (hexDecode s)
     | _ \<Rightarrow> None)"

lemma byte_nibbles:
  "unat (drop_bit 4 (b :: byte)) < 16" "unat (b AND 0x0f) < 16"
  "of_nat (16 * unat (drop_bit 4 b) + unat (b AND 0x0f)) = b"
proof -
  have b: "unat b < 256" using unsigned_less [of b] by simp
  have hi: "unat (drop_bit 4 b) = unat b div 16"
    by (simp add: drop_bit_eq_div unat_div)
  have "b AND 0x0f = take_bit 4 b"
    by (simp add: take_bit_eq_mask mask_eq_exp_minus_1)
  then have lo: "unat (b AND 0x0f) = unat b mod 16"
    by (simp add: take_bit_eq_mod unat_mod)
  show "unat (drop_bit 4 b) < 16" "unat (b AND 0x0f) < 16"
    using b by (simp_all add: hi lo less_mult_imp_div_less)
  show "of_nat (16 * unat (drop_bit 4 b) + unat (b AND 0x0f)) = b"
    by (simp only: hi lo mult_div_mod_eq) simp
qed

lemma hexDecode_hexEncode [simp]: "hexDecode (hexEncode bs) = Some bs"
proof (induction bs)
  case (Cons b bs)
  have "hexDecode (hexEncode (b # bs)) =
      Some (of_nat (16 * unat (drop_bit 4 b) + unat (b AND 0x0f)) # bs)"
    using Cons byte_nibbles(1,2) [of b] by simp
  then show ?case by (simp only: byte_nibbles(3))
qed simp

lemma hexEncode_inj [simp]: "hexEncode a = hexEncode b \<longleftrightarrow> a = b"
  by (metis hexDecode_hexEncode option.inject)

lemma length_hexEncode [simp]: "length (hexEncode bs) = 2 * length bs"
  by (induction bs) auto

lemma hexDecode_length: "hexDecode s = Some bs \<Longrightarrow> length s = 2 * length bs"
  by (induction s arbitrary: bs rule: hexDecode.induct) (auto split: option.splits)

lemma hexDecode_iff:
  "(\<exists>bs. hexDecode s = Some bs) \<longleftrightarrow> even (length s) \<and> (\<forall>c \<in> set s. from_hex_char c \<noteq> None)"
  by (induction s rule: hexDecode.induct) (auto split: option.splits)

section \<open>Decimal\<close>

fun show_nat :: "nat \<Rightarrow> string" where
  "show_nat n = (if n < 10 then [digit_char n] else show_nat (n div 10) @ [digit_char (n mod 10)])"

declare show_nat.simps [simp del]

definition show_int :: "int \<Rightarrow> string" where
  "show_int i = (if i < 0 then ''-'' @ show_nat (nat (- i)) else show_nat (nat i))"

definition show_u64 :: "u64 \<Rightarrow> string" where
  "show_u64 w = show_nat (unat w)"

definition show_i64 :: "i64 \<Rightarrow> string" where
  "show_i64 w = show_int (sint w)"

text \<open>\<open>strconv.ParseUint(s, base, 64)\<close> for bases 10 and 16.\<close>

fun parse_digits :: "nat \<Rightarrow> nat \<Rightarrow> string \<Rightarrow> nat option" where
  "parse_digits base acc [] = Some acc"
| "parse_digits base acc (c # cs) =
    (case from_hex_char c of
       Some d \<Rightarrow> if d < base then parse_digits base (base * acc + d) cs else None
     | None \<Rightarrow> None)"

definition ParseUint :: "string \<Rightarrow> nat \<Rightarrow> u64 option" where
  "ParseUint s base =
    (if s = [] then None
     else case parse_digits base 0 s of
            Some n \<Rightarrow> if n < 2 ^ 64 then Some (of_nat n) else None
          | None \<Rightarrow> None)"

lemma parse_digits_append:
  "parse_digits base acc (s @ t) =
    (case parse_digits base acc s of Some n \<Rightarrow> parse_digits base n t | None \<Rightarrow> None)"
  by (induction s arbitrary: acc) (auto split: option.splits)

lemma parse_digits_show_nat [simp]: "parse_digits 10 0 (show_nat n) = Some n"
proof (induction n rule: show_nat.induct)
  case (1 n)
  show ?case
  proof (cases "n < 10")
    case True
    then show ?thesis by (subst show_nat.simps) simp
  next
    case False
    with 1 show ?thesis by (subst show_nat.simps) (simp add: parse_digits_append)
  qed
qed

lemma show_nat_not_Nil [simp]: "show_nat n \<noteq> []"
  by (subst show_nat.simps) simp

lemma show_nat_inj [simp]: "show_nat m = show_nat n \<longleftrightarrow> m = n"
  by (metis parse_digits_show_nat option.inject)

lemma ParseUint_show_u64: "ParseUint (show_u64 w) 10 = Some w"
  using unsigned_less [of w] by (simp add: ParseUint_def show_u64_def)

text \<open>A decimal numeral consists of digits, so a sign or a delimiter ends it.\<close>

definition is_digit :: "char \<Rightarrow> bool" where
  "is_digit c = (48 \<le> (of_char c :: nat) \<and> (of_char c :: nat) \<le> 57)"

lemma is_digit_digit_char: "n < 10 \<Longrightarrow> is_digit (digit_char n)"
proof -
  have "list_all (\<lambda>n. is_digit (digit_char n)) [0..<10]" by code_simp
  then show "n < 10 \<Longrightarrow> ?thesis" by (simp add: list_all_iff)
qed

lemma show_nat_digits: "c \<in> set (show_nat n) \<Longrightarrow> is_digit c"
proof (induction n rule: show_nat.induct)
  case (1 n)
  show ?case
  proof (cases "n < 10")
    case True
    with "1.prems" show ?thesis
      by (simp add: show_nat.simps [of n] is_digit_digit_char)
  next
    case False
    with 1 show ?thesis
      by (auto simp: show_nat.simps [of n] is_digit_digit_char)
  qed
qed

lemma digit_prefix_unique:
  assumes "\<forall>c \<in> set s. is_digit c" "\<forall>c \<in> set t. is_digit c" "\<not> is_digit x" "\<not> is_digit y"
    and "s @ x # u = t @ y # v"
  shows "s = t \<and> x # u = y # v"
proof -
  have "s = takeWhile is_digit (s @ x # u)" "t = takeWhile is_digit (t @ y # v)"
    using assms(1-4) by (simp_all add: takeWhile_append2)
  with assms(5) show ?thesis by (metis same_append_eq)
qed

lemma show_int_delim:
  assumes "show_int i @ x # u = show_int j @ y # v" "\<not> is_digit x" "\<not> is_digit y"
  shows "i = j \<and> x = y \<and> u = v"
proof -
  have minus: "\<not> is_digit (CHR ''-'')" by (simp add: is_digit_def)
  have hd: "show_nat n = CHR ''-'' # w \<Longrightarrow> False" for n w
    using show_nat_digits [of "CHR ''-''" n] minus by simp
  have ne: "show_nat m @ x # u \<noteq> CHR ''-'' # show_nat n @ y # v" for m n x u y v
    using hd [of m] show_nat_not_Nil [of m] by (cases "show_nat m") auto
  have nn: "m = n \<and> x = y \<and> u = v" if "show_nat m @ x # u = show_nat n @ y # v" for m n
    using digit_prefix_unique [OF _ _ assms(2,3) that] by (auto dest: show_nat_digits)
  show ?thesis
  proof (cases "i < 0"; cases "j < 0")
    assume "i < 0" "j < 0"
    with assms(1) nn [of "nat (- i)" "nat (- j)"] show ?thesis
      by (simp add: show_int_def eq_nat_nat_iff)
  next
    assume "i < 0" "\<not> j < 0"
    with assms(1) ne [of "nat j" y v "nat (- i)" x u] show ?thesis by (simp add: show_int_def)
  next
    assume "\<not> i < 0" "j < 0"
    with assms(1) ne [of "nat i" x u "nat (- j)" y v] show ?thesis by (simp add: show_int_def)
  next
    assume "\<not> i < 0" "\<not> j < 0"
    with assms(1) nn [of "nat i" "nat j"] show ?thesis
      by (simp add: show_int_def eq_nat_nat_iff)
  qed
qed

end
