(* ===== verification/Merkle_Tree.thy ===== *)
theory Merkle_Tree
  imports Sha256 Encoding
begin

text \<open>
  Package \<open>internal/merkle\<close>, file \<open>tree.go\<close>, with the file operations of
  \<open>persistence.go\<close>: the append-only tree, its hashes, its appends and its queries.
  A tree keeps its leaf hashes and, when it was opened on a file, the contents of that file.
  Each append takes what the operating system answered to its \<open>Write\<close> and \<open>Sync\<close>.
\<close>

section \<open>Hashes\<close>

definition HashSize :: nat where "HashSize = 32"

definition leafPrefix :: byte where "leafPrefix = 0x00"
definition internalPrefix :: byte where "internalPrefix = 0x01"

definition HashLeaf :: "bytes \<Rightarrow> bytes" where
  "HashLeaf data = sha256 (leafPrefix # data)"

definition HashChildren :: "bytes \<Rightarrow> bytes \<Rightarrow> bytes" where
  "HashChildren left right = sha256 (internalPrefix # left @ right)"

lemma length_HashLeaf [simp]: "length (HashLeaf d) = 32"
  and length_HashChildren [simp]: "length (HashChildren l r) = 32"
  by (simp_all add: HashLeaf_def HashChildren_def)

text \<open>\<open>copy\<close> into a fresh 32-byte slice.\<close>

definition copy32 :: "bytes \<Rightarrow> bytes" where
  "copy32 src = take HashSize src @ replicate (HashSize - length src) 0"

lemma copy32_id [simp]: "length h = 32 \<Longrightarrow> copy32 h = h"
  by (simp add: copy32_def HashSize_def)

lemma length_copy32 [simp]: "length (copy32 h) = 32"
  by (simp add: copy32_def HashSize_def)

section \<open>The split point\<close>

text \<open>
  The loop \<open>for k<<1 < n\<close>; it starts at \<open>k = 1\<close>, so \<open>k\<close> is never 0.  \<open>n\<close> is the length of a slice of
  slices, whose headers have 24 bytes each, so it is below \<open>2 ^ 59\<close>; \<open>k\<close> stays below \<open>n\<close>, and the 64-bit
  shift does not wrap (it would for \<open>n > 2 ^ 62\<close>).
\<close>

function pow2_loop :: "nat \<Rightarrow> nat \<Rightarrow> nat" where
  "pow2_loop k n = (if 0 < k \<and> 2 * k < n then pow2_loop (2 * k) n else k)"
  by pat_completeness auto
termination
  by (relation "measure (\<lambda>(k, n). n - k)") auto

declare pow2_loop.simps [simp del]

definition pow2_below :: "nat \<Rightarrow> nat" where
  "pow2_below n = pow2_loop 1 n"

text \<open>\<open>None\<close> is the panic of the guard \<open>n < 2\<close>.\<close>

definition largestPowerOfTwoLessThan :: "nat \<Rightarrow> nat option" where
  "largestPowerOfTwoLessThan n = (if n < 2 then None else Some (pow2_below n))"

lemma pow2_loop_spec:
  "k = 2 ^ j \<Longrightarrow> k < n \<Longrightarrow> \<exists>i. pow2_loop k n = 2 ^ i \<and> 2 ^ i < n \<and> n \<le> 2 * 2 ^ i"
proof (induction k n arbitrary: j rule: pow2_loop.induct)
  case (1 k n)
  show ?case
  proof (cases "2 * k < n")
    case True
    with 1 have "\<exists>i. pow2_loop (2 * k) n = 2 ^ i \<and> 2 ^ i < n \<and> n \<le> 2 * 2 ^ i"
      by (metis (no_types) power_Suc zero_less_numeral zero_less_power)
    moreover have "pow2_loop k n = pow2_loop (2 * k) n"
      using True "1.prems" by (subst pow2_loop.simps) simp
    ultimately show ?thesis by simp
  next
    case False
    then have "pow2_loop k n = k" by (subst pow2_loop.simps) simp
    with False "1.prems" show ?thesis by (intro exI [of _ j]) simp
  qed
qed

lemma pow2_below_spec:
  assumes "2 \<le> n"
  obtains i where "pow2_below n = 2 ^ i" "2 ^ i < n" "n \<le> 2 * 2 ^ i"
  using pow2_loop_spec [of 1 0 n] assms that by (auto simp: pow2_below_def)

lemma pow2_below_bounds:
  assumes "2 \<le> n"
  shows "0 < pow2_below n" "pow2_below n < n" "n \<le> 2 * pow2_below n"
  using pow2_below_spec [OF assms] by fastforce+

text \<open>The power of two below \<open>n\<close> is the only one with \<open>k < n \<le> 2 k\<close>.\<close>

lemma pow2_below_unique:
  assumes "2 ^ i < n" "n \<le> 2 * 2 ^ i"
  shows "pow2_below n = 2 ^ i"
proof -
  have "(1 :: nat) \<le> 2 ^ i" by simp
  with assms(1) have "2 \<le> n" by linarith
  then obtain j where j: "pow2_below n = 2 ^ j" "2 ^ j < n" "n \<le> 2 * 2 ^ j"
    by (rule pow2_below_spec)
  then have "(2 :: nat) ^ i < 2 ^ Suc j" "(2 :: nat) ^ j < 2 ^ Suc i"
    using assms by simp_all
  then have "i < Suc j" "j < Suc i" by (simp_all only: power_strict_increasing_iff one_less_numeral_iff semiring_norm)
  then have "i = j" by simp
  with j show ?thesis by simp
qed

lemma length_ge_2: "xs \<noteq> [] \<Longrightarrow> length xs \<noteq> Suc 0 \<Longrightarrow> 2 \<le> length xs"
  by (cases xs) (auto simp: Suc_le_eq)

section \<open>The Merkle tree hash\<close>

function mth :: "bytes list \<Rightarrow> bytes" where
  "mth leaves =
    (let n = length leaves
     in if n = 0 then sha256 []
        else if n = 1 then copy32 (leaves ! 0)
        else let k = pow2_below n
             in HashChildren (mth (take k leaves)) (mth (drop k leaves)))"
  by pat_completeness auto
termination
  by (relation "measure length")
    (auto dest!: length_ge_2 simp: pow2_below_bounds min_less_iff_disj intro!: diff_less)

declare mth.simps [simp del]

lemma mth_Nil [simp]: "mth [] = sha256 []"
  by (simp add: mth.simps)

lemma mth_single: "mth [h] = copy32 h"
  by (simp add: mth.simps)

lemma mth_split:
  "2 \<le> length leaves \<Longrightarrow> k = pow2_below (length leaves) \<Longrightarrow>
    mth leaves = HashChildren (mth (take k leaves)) (mth (drop k leaves))"
  by (subst mth.simps) (auto simp: Let_def)

text \<open>Induction over the shape of the tree, shared by every proof about it.\<close>

lemma tree_shape_induct [case_names Empty Single Split]:
  assumes "P []" "\<And>h. P [h]"
    and "\<And>leaves k. 2 \<le> length leaves \<Longrightarrow> k = pow2_below (length leaves) \<Longrightarrow>
      P (take k leaves) \<Longrightarrow> P (drop k leaves) \<Longrightarrow> P leaves"
  shows "P leaves"
proof (induction leaves rule: length_induct)
  case (1 leaves)
  consider "leaves = []" | h where "leaves = [h]" | "2 \<le> length leaves"
    by (metis One_nat_def Suc_1 Suc_leI length_greater_0_conv length_0_conv
        length_Suc_conv nat_less_le not_less_eq_eq)
  then show ?case
  proof cases
    case 3
    note b = pow2_below_bounds [OF 3]
    show ?thesis
      by (rule assms(3) [OF 3 refl]) (use 1 b in \<open>auto intro: diff_less\<close>)
  qed (use assms(1,2) in simp_all)
qed

lemma length_mth [simp]: "length (mth leaves) = 32"
  by (induction leaves rule: tree_shape_induct) (simp_all add: mth_single mth_split)

section \<open>The tree object\<close>

datatype merkle_sentinel =
  ErrSizeRegression | ErrRootMismatch | ErrInvalidProof | ErrClosed | ErrOther

text \<open>An error is what \<open>errors.Is\<close> finds in it and its full text.\<close>

datatype merkle_error = MerkleErr (sentinel: merkle_sentinel) (error_text: string)

fun sentinel_text :: "merkle_sentinel \<Rightarrow> string" where
  "sentinel_text ErrSizeRegression = ''merkle: historical size larger than current size''"
| "sentinel_text ErrRootMismatch = ''merkle: root mismatch''"
| "sentinel_text ErrInvalidProof = ''merkle: invalid consistency proof''"
| "sentinel_text ErrClosed = ''merkle: tree closed''"
| "sentinel_text ErrOther = []"

definition bare_err :: "merkle_sentinel \<Rightarrow> merkle_error" where
  "bare_err s = MerkleErr s (sentinel_text s)"

definition wrap_err :: "merkle_sentinel \<Rightarrow> string \<Rightarrow> merkle_error" where
  "wrap_err s msg = MerkleErr s (sentinel_text s @ '': '' @ msg)"

lemma sentinel_err [simp]: "sentinel (bare_err s) = s" "sentinel (wrap_err s m) = s"
  by (simp_all add: bare_err_def wrap_err_def)

record tree =
  t_leaves :: "bytes list"
  t_file :: "bytes option"
  t_closed :: bool

definition New :: tree where
  "New = \<lparr>t_leaves = [], t_file = None, t_closed = False\<rparr>"

definition Size :: "tree \<Rightarrow> u64" where
  "Size t = of_nat (length (t_leaves t))"

definition Root :: "tree \<Rightarrow> bytes" where
  "Root t = mth (t_leaves t)"

definition Snapshot :: "tree \<Rightarrow> u64 \<times> bytes" where
  "Snapshot t = (of_nat (length (t_leaves t)), mth (t_leaves t))"

definition RootAt :: "tree \<Rightarrow> u64 \<Rightarrow> (merkle_error, bytes) go_result" where
  "RootAt t n =
    (if n > of_nat (length (t_leaves t))
     then Err (wrap_err ErrInvalidProof
       (''size '' @ show_u64 n @ '' > current '' @ show_nat (length (t_leaves t))))
     else Ok (mth (take (unat n) (t_leaves t))))"

definition LeafHashes :: "tree \<Rightarrow> bytes list" where
  "LeafHashes t = map (\<lambda>h. h) (t_leaves t)"

text \<open>What the operating system answers to the \<open>Write\<close> and the \<open>Sync\<close> of one append.\<close>

datatype write_io = WriteOk | WriteShort nat string
datatype sync_io = SyncOk | SyncFail string

type_synonym leaf_io = "write_io \<times> sync_io"

definition persistLocked :: "leaf_io \<Rightarrow> tree \<Rightarrow> bytes \<Rightarrow> merkle_error option \<times> tree" where
  "persistLocked io t leafHash =
    (if t_closed t then (Some (bare_err ErrClosed), t)
     else case t_file t of
       None \<Rightarrow> (None, t)
     | Some content \<Rightarrow>
        (case fst io of
           WriteShort n msg \<Rightarrow>
             (Some (MerkleErr ErrOther (''merkle: write leaf: '' @ msg)),
              t\<lparr>t_file := Some (content @ take n leafHash)\<rparr>)
         | WriteOk \<Rightarrow>
             (let t' = t\<lparr>t_file := Some (content @ leafHash)\<rparr>
              in case snd io of
                   SyncFail msg \<Rightarrow> (Some (MerkleErr ErrOther (''merkle: fsync: '' @ msg)), t')
                 | SyncOk \<Rightarrow> (None, t'))))"

definition Append :: "leaf_io \<Rightarrow> tree \<Rightarrow> bytes \<Rightarrow> (merkle_error, u64) go_result \<times> tree" where
  "Append io t data =
    (let leafHash = HashLeaf data
     in case persistLocked io t leafHash of
          (Some e, t') \<Rightarrow> (Err e, t')
        | (None, t') \<Rightarrow>
            (let t'' = t'\<lparr>t_leaves := t_leaves t' @ [leafHash]\<rparr>
             in (Ok (of_nat (length (t_leaves t'')) - 1), t'')))"

definition AppendHashed :: "leaf_io \<Rightarrow> tree \<Rightarrow> bytes \<Rightarrow> (merkle_error, u64) go_result \<times> tree" where
  "AppendHashed io t leafHash =
    (if length leafHash \<noteq> HashSize
     then (Err (MerkleErr ErrOther (''merkle: leaf hash must be '' @ show_nat HashSize
             @ '' bytes, got '' @ show_nat (length leafHash))), t)
     else let cp = copy32 leafHash
     in case persistLocked io t cp of
          (Some e, t') \<Rightarrow> (Err e, t')
        | (None, t') \<Rightarrow>
            (let t'' = t'\<lparr>t_leaves := t_leaves t' @ [cp]\<rparr>
             in (Ok (of_nat (length (t_leaves t'')) - 1), t'')))"

section \<open>Well-formed trees\<close>

text \<open>
  Every leaf hash has 32 bytes, and there are fewer than \<open>2 ^ 63\<close> of them (the length of
  a Go slice is an \<open>int\<close>).
\<close>

definition wf_leaves :: "bytes list \<Rightarrow> bool" where
  "wf_leaves ls \<longleftrightarrow> (\<forall>h \<in> set ls. length h = 32) \<and> length ls < 2 ^ 63"

definition wf_tree :: "tree \<Rightarrow> bool" where
  "wf_tree t \<longleftrightarrow> wf_leaves (t_leaves t)"

lemma wf_leaves_take [simp]: "wf_leaves ls \<Longrightarrow> wf_leaves (take k ls)"
  and wf_leaves_drop [simp]: "wf_leaves ls \<Longrightarrow> wf_leaves (drop k ls)"
  by (auto simp: wf_leaves_def dest: in_set_takeD in_set_dropD)

lemma unat_len: "wf_leaves ls \<Longrightarrow> unat (of_nat (length ls) :: u64) = length ls"
  by (simp add: wf_leaves_def unat_u64_of_nat)

lemma u64_le_len:
  "wf_leaves ls \<Longrightarrow> n \<le> of_nat (length ls) \<longleftrightarrow> unat n \<le> length ls" for n :: u64
  by (simp add: word_le_nat_alt unat_len)

lemma persistLocked_leaves [frame]:
  "t_leaves (snd (persistLocked io t h)) = t_leaves t"
  by (simp add: persistLocked_def Let_def split: option.split write_io.split sync_io.split)


section \<open>Appends\<close>

text \<open>
  The contract of an append-only leaf log, as the audit pipeline and the verifier use it: an
  append that succeeds adds exactly one leaf at the end and returns its index, one that fails
  leaves the leaves alone, and none panics.
\<close>

locale leaf_log =
  fixes append :: "'io \<Rightarrow> 't \<Rightarrow> bytes \<Rightarrow> (merkle_error, u64) go_result \<times> 't"
    and hashes :: "'t \<Rightarrow> bytes list"
    and leaf_of :: "bytes \<Rightarrow> bytes"
  assumes append_ok: "append io t d = (Ok i, t') \<Longrightarrow>
      hashes t' = hashes t @ [leaf_of d] \<and> i = of_nat (length (hashes t))"
    and append_err: "append io t d = (Err e, t') \<Longrightarrow> hashes t' = hashes t"
    and append_no_panic: "append io t d \<noteq> (Panic, t')"

text \<open>A run of appends; the caller goes on after an error.\<close>

fun append_run ::
  "('io \<Rightarrow> 't \<Rightarrow> bytes \<Rightarrow> (merkle_error, u64) go_result \<times> 't) \<Rightarrow> 't \<Rightarrow> ('io \<times> bytes) list \<Rightarrow> 't"
where
  "append_run app t [] = t"
| "append_run app t ((io, d) # ops) = append_run app (snd (app io t d)) ops"

context leaf_log begin

lemma append_cases:
  obtains i t' where "append io t d = (Ok i, t')" "hashes t' = hashes t @ [leaf_of d]"
    "i = of_nat (length (hashes t))"
  | e t' where "append io t d = (Err e, t')" "hashes t' = hashes t"
  using append_ok append_err append_no_panic
  by (cases "append io t d"; cases "fst (append io t d)") fastforce+

lemma run_append_only: "\<exists>new. hashes (append_run append t ops) = hashes t @ new"
proof (induction ops arbitrary: t)
  case (Cons op ops)
  obtain io d where op: "op = (io, d)" by (cases op)
  obtain new where new: "hashes (append_run append (snd (append io t d)) ops)
      = hashes (snd (append io t d)) @ new"
    using Cons by blast
  show ?case
    by (rule append_cases [of io t d]) (use new op in auto)
qed simp

lemma run_takes_prefix:
  "n \<le> length (hashes t) \<Longrightarrow> take n (hashes (append_run append t ops)) = take n (hashes t)"
  using run_append_only [of t ops] by auto

end

interpretation tree_log: leaf_log Append t_leaves HashLeaf
proof
  fix io t d i t' e
  show "Append io t d = (Ok i, t') \<Longrightarrow>
      t_leaves t' = t_leaves t @ [HashLeaf d] \<and> i = of_nat (length (t_leaves t))"
    and "Append io t d = (Err e, t') \<Longrightarrow> t_leaves t' = t_leaves t"
    and "Append io t d \<noteq> (Panic, t')"
    using persistLocked_leaves [of io t "HashLeaf d"]
    by (auto simp: Append_def Let_def split: prod.splits option.splits)
qed

interpretation hashed_log: leaf_log AppendHashed t_leaves copy32
proof
  fix io t d i t' e
  show "AppendHashed io t d = (Ok i, t') \<Longrightarrow>
      t_leaves t' = t_leaves t @ [copy32 d] \<and> i = of_nat (length (t_leaves t))"
    and "AppendHashed io t d = (Err e, t') \<Longrightarrow> t_leaves t' = t_leaves t"
    and "AppendHashed io t d \<noteq> (Panic, t')"
    using persistLocked_leaves [of io t "copy32 d"]
    by (auto simp: AppendHashed_def Let_def split: prod.splits option.splits if_splits)
qed

lemma Append_memory:
  "t_file t = None \<Longrightarrow> \<not> t_closed t \<Longrightarrow>
    Append io t d = (Ok (of_nat (length (t_leaves t))), t\<lparr>t_leaves := t_leaves t @ [HashLeaf d]\<rparr>)"
  by (simp add: Append_def persistLocked_def)

lemma wf_leaves_snoc:
  "wf_leaves ls \<Longrightarrow> length h = 32 \<Longrightarrow> Suc (length ls) < 2 ^ 63 \<Longrightarrow> wf_leaves (ls @ [h])"
  by (auto simp: wf_leaves_def)

section \<open>Collision reporting\<close>

text \<open>
  Binding properties of the tree are stated constructively: from two different trees with one
  root they name two different byte strings, both of which the program really hashes, with the
  same digest.  That a collision merely exists would be a triviality.
\<close>

definition node_input :: "bytes \<Rightarrow> bytes \<Rightarrow> bytes" where
  "node_input l r = internalPrefix # l @ r"

definition collision_in :: "bytes set \<Rightarrow> bool" where
  "collision_in X \<longleftrightarrow> (\<exists>x \<in> X. \<exists>y \<in> X. x \<noteq> y \<and> sha256 x = sha256 y)"

lemma collision_mono: "collision_in X \<Longrightarrow> X \<subseteq> Y \<Longrightarrow> collision_in Y"
  by (auto simp: collision_in_def)

function mth_inputs :: "bytes list \<Rightarrow> bytes list" where
  "mth_inputs leaves =
    (if length leaves \<le> 1 then []
     else let k = pow2_below (length leaves); l = take k leaves; r = drop k leaves
          in node_input (mth l) (mth r) # mth_inputs l @ mth_inputs r)"
  by pat_completeness auto
termination
  by (relation "measure length")
    (auto dest!: length_ge_2 simp: pow2_below_bounds min_less_iff_disj not_le
      intro!: diff_less pow2_below_bounds)

declare mth_inputs.simps [simp del]

lemma mth_inputs_split:
  "2 \<le> length leaves \<Longrightarrow> k = pow2_below (length leaves) \<Longrightarrow>
    mth_inputs leaves = node_input (mth (take k leaves)) (mth (drop k leaves))
      # mth_inputs (take k leaves) @ mth_inputs (drop k leaves)"
  by (subst mth_inputs.simps) (auto simp: Let_def)

lemma HashChildren_eq:
  "HashChildren a b = HashChildren c d \<Longrightarrow>
    a @ b = c @ d \<or> collision_in {node_input a b, node_input c d}"
  by (auto simp: HashChildren_def collision_in_def node_input_def)

lemma HashChildren_eq_32:
  "HashChildren a b = HashChildren c d \<Longrightarrow> length a = length c \<Longrightarrow>
    (a = c \<and> b = d) \<or> collision_in {node_input a b, node_input c d}"
  using HashChildren_eq by fastforce

text \<open>Trees of one size with one root have the same leaves, or two hashed inputs collide.\<close>

lemma mth_binding:
  "length xs = length ys \<Longrightarrow> wf_leaves xs \<Longrightarrow> wf_leaves ys \<Longrightarrow> mth xs = mth ys \<Longrightarrow>
    xs = ys \<or> collision_in (set (mth_inputs xs) \<union> set (mth_inputs ys))"
proof (induction xs arbitrary: ys rule: tree_shape_induct)
  case (Single h)
  then obtain g where "ys = [g]" by (cases ys) auto
  with Single show ?case by (simp add: mth_single wf_leaves_def)
next
  case (Split xs k)
  let ?U = "set (mth_inputs xs) \<union> set (mth_inputs ys)"
  have ys: "2 \<le> length ys" "k = pow2_below (length ys)" using Split by simp_all
  have subs: "{node_input (mth (take k xs)) (mth (drop k xs)),
        node_input (mth (take k ys)) (mth (drop k ys))} \<subseteq> ?U"
      "set (mth_inputs (take k xs)) \<union> set (mth_inputs (take k ys)) \<subseteq> ?U"
      "set (mth_inputs (drop k xs)) \<union> set (mth_inputs (drop k ys)) \<subseteq> ?U"
    by (auto simp: mth_inputs_split [OF Split(1,2)] mth_inputs_split [OF ys])
  have "HashChildren (mth (take k xs)) (mth (drop k xs))
      = HashChildren (mth (take k ys)) (mth (drop k ys))"
    using Split.prems(4) mth_split [OF Split(1,2)] mth_split [OF ys] by simp
  from HashChildren_eq_32 [OF this] consider
    (same) "mth (take k xs) = mth (take k ys)" "mth (drop k xs) = mth (drop k ys)"
    | (coll) "collision_in ?U"
    using collision_mono [OF _ subs(1)] by auto
  then show ?case
  proof cases
    case same
    have "take k xs = take k ys \<or> collision_in ?U"
      using Split.IH(1) [OF _ _ _ same(1)] Split.prems collision_mono [OF _ subs(2)] by auto
    moreover have "drop k xs = drop k ys \<or> collision_in ?U"
      using Split.IH(2) [OF _ _ _ same(2)] Split.prems collision_mono [OF _ subs(3)] by auto
    ultimately show ?thesis by (metis append_take_drop_id)
  qed simp
qed simp

end
