(* ===== verification/Merkle_Nav.thy ===== *)
theory Merkle_Nav
  imports Merkle_Tree
begin

text \<open>
  The two proof verifiers of \<open>internal/merkle\<close> (\<open>inclusion.go\<close> and \<open>consistency.go\<close>)
  walk from a leaf to the root with the same bit-twiddling on a pair \<open>(fn, sn)\<close>.  This
  theory isolates that walk: \<open>nav\<close> is the list of sides on which the siblings lie, read
  off \<open>(fn, sn)\<close> as the code does, and \<open>dirs\<close> and \<open>cdirs\<close> are the same lists by
  recursion over the shape of the tree (RFC 6962).  That the walks agree is the heart of the
  correctness of both verifiers.
\<close>

section \<open>The walk on natural numbers\<close>

text \<open>The inner loop \<open>for fn&1 == 0 && fn != 0\<close>.\<close>

function nskip :: "nat \<Rightarrow> nat \<Rightarrow> nat \<times> nat" where
  "nskip f s = (if even f \<and> f \<noteq> 0 then nskip (f div 2) (s div 2) else (f, s))"
  by pat_completeness auto
termination by (relation "measure fst") auto

declare nskip.simps [simp del]

lemma nskip_odd [simp]: "odd f \<Longrightarrow> nskip f s = (f, s)"
  by (simp add: nskip.simps)

lemma nskip_le: "nskip f s = (f', s') \<Longrightarrow> s' \<le> s"
proof (induction f s rule: nskip.induct)
  case (1 f s)
  then show ?case
    by (cases "even f \<and> f \<noteq> 0") (force simp: nskip.simps [of f s])+
qed

lemma nskip_pow2: "a \<noteq> 0 \<Longrightarrow> nskip (a * 2 ^ e) (a * 2 ^ e) = nskip a a"
proof (induction e)
  case (Suc e)
  then show ?case by (subst nskip.simps) simp
qed simp

text \<open>\<open>True\<close>: the sibling is on the left and the odd part of \<open>fn\<close> is consumed.\<close>

function nav :: "nat \<Rightarrow> nat \<Rightarrow> bool list" where
  "nav fn sn =
    (if sn = 0 then []
     else if odd fn \<or> fn = sn
          then True # nav (fst (nskip fn sn) div 2) (snd (nskip fn sn) div 2)
          else False # nav (fn div 2) (sn div 2))"
  by pat_completeness auto
termination
proof (relation "measure snd")
  fix fn sn :: nat
  assume "sn \<noteq> 0"
  then show "((fst (nskip fn sn) div 2, snd (nskip fn sn) div 2), fn, sn) \<in> measure snd"
    using nskip_le [of fn sn "fst (nskip fn sn)" "snd (nskip fn sn)"] by simp
qed auto

declare nav.simps [simp del]

lemma nav_0 [simp]: "nav fn 0 = []"
  by (simp add: nav.simps)

lemma nav_False: "sn \<noteq> 0 \<Longrightarrow> even fn \<Longrightarrow> fn \<noteq> sn \<Longrightarrow> nav fn sn = False # nav (fn div 2) (sn div 2)"
  by (subst nav.simps) simp

lemma nav_True: "sn \<noteq> 0 \<Longrightarrow> odd fn \<Longrightarrow> nav fn sn = True # nav (fn div 2) (sn div 2)"
  by (subst nav.simps) simp

lemma nav_strip: "nav (a * 2 ^ e) (a * 2 ^ e) = nav a a"
proof (cases "a = 0")
  case False
  then show ?thesis
    by (simp add: nav.simps [of "a * 2 ^ e"] nav.simps [of a] nskip_pow2)
qed simp

section \<open>The walk by the shape of the tree\<close>

function dirs :: "nat \<Rightarrow> nat \<Rightarrow> bool list" where
  "dirs m n =
    (if n \<le> 1 then []
     else let k = pow2_below n
          in if m < k then dirs m k @ [False] else dirs (m - k) (n - k) @ [True])"
  by pat_completeness auto
termination
  by (relation "measure snd") (auto simp: pow2_below_bounds Suc_le_eq intro!: diff_less)

declare dirs.simps [simp del]

text \<open>
  One level of the tree.  The subtree sits at height \<open>j\<close> below a node with coordinates
  \<open>(a, b)\<close>: either it is perfect and not on the right edge (\<open>a < b\<close>), or it is the
  right edge itself.
\<close>

definition embedded :: "nat \<Rightarrow> nat \<Rightarrow> nat \<Rightarrow> nat \<Rightarrow> nat \<Rightarrow> bool" where
  "embedded j n a b t \<longleftrightarrow>
    n \<le> 2 ^ j \<and> ((n = 2 ^ j \<and> a < b \<and> t < 2 ^ j) \<or> (a = b \<and> t = n - 1))"

text \<open>
  The coordinates of the left and of the right child of an embedded subtree, and what the
  walk does when it comes out of either child.
\<close>

lemma embedded_children:
  assumes "embedded j n a b t" "2 \<le> n" "pow2_below n = 2 ^ i" "2 ^ i < n" "n \<le> 2 * 2 ^ i"
  obtains A B s where
    "even A" "a * 2 ^ j = A * 2 ^ i"
    "b * 2 ^ j + t = B * 2 ^ i + s"
    "embedded i (2 ^ i) A B s" "A \<noteq> B" "B \<noteq> 0"
    "embedded i (n - 2 ^ i) (Suc A) B s"
    "nav (A div 2) (B div 2) = nav a b"
proof -
  have "n \<le> 2 ^ j" using assms(1) by (simp add: embedded_def)
  with assms(4) have "(2 :: nat) ^ i < 2 ^ j" by (rule less_le_trans)
  then have "i < j" by simp
  then obtain e where j: "j = Suc (i + e)" using less_iff_Suc_add by auto
  let ?A = "2 * (a * 2 ^ e)"
  consider (perfect) "n = 2 ^ j" "a < b" "t < 2 ^ j" | (edge) "a = b" "t = n - 1"
    using assms(1) by (auto simp: embedded_def)
  then show thesis
  proof cases
    case perfect
    have "(2 :: nat) ^ j \<le> 2 ^ Suc i" using perfect(1) assms(5) by simp
    then have "j \<le> Suc i" by (simp only: power_increasing_iff one_less_numeral_iff semiring_norm)
    with j have e: "e = 0" "j = Suc i" by simp_all
    let ?B = "2 * b + t div 2 ^ i" and ?s = "t mod 2 ^ i"
    have t: "t div 2 ^ i < 2" using perfect(3) e by (simp add: less_mult_imp_div_less)
    have "b * 2 ^ j + t = ?B * 2 ^ i + ?s"
      using div_mult_mod_eq [of t "2 ^ i"] by (simp add: e algebra_simps)
    moreover have "embedded i (2 ^ i) ?A ?B ?s" "embedded i (n - 2 ^ i) (Suc ?A) ?B ?s"
      using perfect e by (auto simp: embedded_def)
    moreover have "?A div 2 = a" "?B div 2 = b" using t e by auto
    ultimately show thesis using that [of ?A ?B ?s] perfect(2) e by simp
  next
    case edge
    let ?s = "t - 2 ^ i"
    have s: "t = 2 ^ i + ?s" "?s < 2 ^ i" using edge(2) assms(2,4,5) by auto
    have "b * 2 ^ j + t = Suc ?A * 2 ^ i + ?s"
      using s(1) edge(1) by (simp add: j power_add algebra_simps)
    moreover have "embedded i (2 ^ i) ?A (Suc ?A) ?s" "embedded i (n - 2 ^ i) (Suc ?A) (Suc ?A) ?s"
      using s edge(2) assms(4,5) by (auto simp: embedded_def)
    moreover have "nav (?A div 2) (Suc ?A div 2) = nav a b"
      by (simp add: nav_strip edge(1))
    ultimately show thesis
      using that [of ?A "Suc ?A" ?s] by (simp add: j power_add)
  qed
qed

lemma nav_dirs_embedded:
  "m < n \<Longrightarrow> embedded j n a b t \<Longrightarrow> nav (a * 2 ^ j + m) (b * 2 ^ j + t) = dirs m n @ nav a b"
proof (induction m n arbitrary: j a b t rule: dirs.induct)
  case (1 m n)
  show ?case
  proof (cases "n \<le> 1")
    case True
    with 1 have n: "n = 1" "m = 0" by auto
    have "nav (a * 2 ^ j) (b * 2 ^ j + t) = nav a b"
      using "1.prems"(2) n(1) eq_commute [of "Suc 0" "2 ^ j"]
      by (cases "j = 0") (auto simp: embedded_def nav_strip)
    with n show ?thesis by (simp add: dirs.simps [of 0 "Suc 0"])
  next
    case False
    then have n: "2 \<le> n" by simp
    obtain i where i: "pow2_below n = 2 ^ i" "2 ^ i < n" "n \<le> 2 * 2 ^ i"
      using pow2_below_spec [OF n] .
    obtain A B s where c: "even A" "a * 2 ^ j = A * 2 ^ i"
        "b * 2 ^ j + t = B * 2 ^ i + s" "embedded i (2 ^ i) A B s" "A \<noteq> B" "B \<noteq> 0"
        "embedded i (n - 2 ^ i) (Suc A) B s" "nav (A div 2) (B div 2) = nav a b"
      using embedded_children [OF "1.prems"(2) n i] .
    show ?thesis
    proof (cases "m < 2 ^ i")
      case True
      then have "nav (A * 2 ^ i + m) (B * 2 ^ i + s) = dirs m (2 ^ i) @ nav A B"
        using "1.IH"(1) [OF False i(1) [symmetric]] c(4) i(1) by simp
      then show ?thesis
        using True False c nav_False [of B A] by (subst dirs.simps) (simp add: i(1) Let_def)
    next
      case False
      have "nav (Suc A * 2 ^ i + (m - 2 ^ i)) (B * 2 ^ i + s)
          = dirs (m - 2 ^ i) (n - 2 ^ i) @ nav (Suc A) B"
        by (rule "1.IH"(2) [OF \<open>\<not> n \<le> 1\<close> i(1) [symmetric] False _ c(7)])
          (use False "1.prems"(1) in simp)
      moreover have "Suc A * 2 ^ i + (m - 2 ^ i) = a * 2 ^ j + m"
        using False by (simp add: c(2))
      ultimately show ?thesis
        using False \<open>\<not> n \<le> 1\<close> c nav_True [of B "Suc A"] by (subst dirs.simps) (simp add: i(1) Let_def)
    qed
  qed
qed

text \<open>The inclusion walk: the bit arithmetic reads off the path to leaf \<open>m\<close> of \<open>n\<close>.\<close>

lemma nav_dirs: "m < n \<Longrightarrow> nav m (n - 1) = dirs m n"
proof -
  assume m: "m < n"
  have "embedded n n 0 0 (n - 1)" by (simp add: embedded_def less_imp_le)
  from nav_dirs_embedded [OF m this] show ?thesis by simp
qed

section \<open>The consistency walk\<close>

text \<open>The first loop of \<open>VerifyConsistency\<close>, \<open>for fn&1 == 1\<close>.\<close>

function nones :: "nat \<Rightarrow> nat \<Rightarrow> nat \<times> nat" where
  "nones f s = (if odd f then nones (f div 2) (s div 2) else (f, s))"
  by pat_completeness auto
termination by (relation "measure fst") (auto elim: oddE)

declare nones.simps [simp del]

function cdirs :: "nat \<Rightarrow> nat \<Rightarrow> bool list" where
  "cdirs m n =
    (if m = n \<or> n \<le> 1 then []
     else let k = pow2_below n
          in if m \<le> k then cdirs m k @ [False] else cdirs (m - k) (n - k) @ [True])"
  by pat_completeness auto
termination
  by (relation "measure snd") (auto simp: pow2_below_bounds Suc_le_eq intro!: diff_less)

declare cdirs.simps [simp del]

lemma nones_even [simp]: "even f \<Longrightarrow> nones f s = (f, s)"
  by (simp add: nones.simps)

text \<open>Stripping the ones of a perfect left subtree leads to its root.\<close>

lemma nones_perfect:
  "even a \<Longrightarrow> s < 2 ^ i \<Longrightarrow> nones (a * 2 ^ i + (2 ^ i - 1)) (b * 2 ^ i + s) = (a, b)"
proof (induction i arbitrary: s)
  case (Suc i)
  let ?f = "a * 2 ^ Suc i + (2 ^ Suc i - 1)"
  obtain p where p: "(2 :: nat) ^ i = Suc p"
    by (metis not0_implies_Suc power_not_zero zero_neq_numeral)
  have f: "?f = 2 * (a * 2 ^ i + (2 ^ i - 1)) + 1" by (simp add: p algebra_simps)
  have s: "(b * 2 ^ Suc i + s) div 2 = b * 2 ^ i + s div 2" by simp
  have "nones ?f (b * 2 ^ Suc i + s) = nones (a * 2 ^ i + (2 ^ i - 1)) (b * 2 ^ i + s div 2)"
    by (subst nones.simps) (simp only: f s, simp)
  also have "\<dots> = (a, b)"
    using Suc by simp
  finally show ?case .
qed simp

lemma nav_cdirs_embedded:
  assumes "1 \<le> m" "m < n" "embedded j n a b t"
  shows "case nones (a * 2 ^ j + (m - 1)) (b * 2 ^ j + t) of
      (f, s) \<Rightarrow> nav f s = cdirs m n @ nav a b"
  using assms
proof (induction m n arbitrary: j a b t rule: cdirs.induct)
  case (1 m n)
  then have n: "2 \<le> n" "\<not> (m = n \<or> n \<le> 1)" by auto
  obtain i where i: "pow2_below n = 2 ^ i" "2 ^ i < n" "n \<le> 2 * 2 ^ i"
    using pow2_below_spec [OF n(1)] .
  obtain A B s where c: "even A" "a * 2 ^ j = A * 2 ^ i"
      "b * 2 ^ j + t = B * 2 ^ i + s" "embedded i (2 ^ i) A B s" "A \<noteq> B" "B \<noteq> 0"
      "embedded i (n - 2 ^ i) (Suc A) B s" "nav (A div 2) (B div 2) = nav a b"
    using embedded_children [OF "1.prems"(3) n(1) i] .
  have s: "s < 2 ^ i" using c(4) by (auto simp: embedded_def)
  show ?case
  proof (cases "m \<le> 2 ^ i")
    case True
    have "case nones (A * 2 ^ i + (m - 1)) (B * 2 ^ i + s) of
        (f, s) \<Rightarrow> nav f s = cdirs m (2 ^ i) @ nav A B"
    proof (cases "m = 2 ^ i")
      case True
      then show ?thesis using nones_perfect [OF c(1) s] by (simp add: cdirs.simps)
    next
      case False
      with True "1.IH"(1) [OF n(2) i(1) [symmetric] _ "1.prems"(1) _ c(4)] show ?thesis by simp
    qed
    then show ?thesis
      using True n c nav_False [of B A] by (subst cdirs.simps) (simp add: i(1))
  next
    case False
    then have "case nones (Suc A * 2 ^ i + (m - 2 ^ i - 1)) (B * 2 ^ i + s) of
        (f, s) \<Rightarrow> nav f s = cdirs (m - 2 ^ i) (n - 2 ^ i) @ nav (Suc A) B"
      by (intro "1.IH"(2) [OF n(2) i(1) [symmetric] False _ _ c(7)])
        (use "1.prems"(2) in simp_all)
    moreover have "Suc A * 2 ^ i + (m - 2 ^ i - 1) = a * 2 ^ j + (m - 1)"
      using False by (simp add: c(2))
    ultimately show ?thesis
      using False n c nav_True [of B "Suc A"] by (subst cdirs.simps) (simp add: i(1) Let_def)
  qed
qed

lemma nav_cdirs:
  assumes "1 \<le> m" "m < n"
  shows "case nones (m - 1) (n - 1) of (f, s) \<Rightarrow> nav f s = cdirs m n"
proof -
  have "embedded n n 0 0 (n - 1)" by (simp add: embedded_def less_imp_le)
  from nav_cdirs_embedded [OF assms this] show ?thesis by simp
qed

text \<open>
  The seed of the consistency walk: the subtree of \<open>m\<close> leaves sits on the left spine, so
  that its hash is the old root, exactly if \<open>m\<close> is a power of two.
\<close>

lemma cdirs_pow2: "2 ^ i \<le> n \<Longrightarrow> True \<notin> set (cdirs (2 ^ i) n)"
proof (induction "(2 :: nat) ^ i" n rule: cdirs.induct)
  case (1 n)
  show ?case
  proof (cases "2 ^ i = n \<or> n \<le> 1")
    case False
    with 1(3) have n: "2 ^ i < n" "2 \<le> n" by auto
    obtain l where l: "pow2_below n = 2 ^ l" "2 ^ l < n" "n \<le> 2 * 2 ^ l"
      using pow2_below_spec [OF n(2)] .
    have "(2 :: nat) ^ i < 2 ^ Suc l" using n(1) l(3) by simp
    then have "i \<le> l" by (simp only: power_strict_increasing_iff one_less_numeral_iff semiring_norm
        less_Suc_eq_le)
    then have "(2 :: nat) ^ i \<le> 2 ^ l" by simp
    with 1(1) [OF False l(1) [symmetric]] False l(1) show ?thesis
      by (subst cdirs.simps) simp
  qed (auto simp: cdirs.simps)
qed

end
