(* ===== verification/Merkle_Inclusion.thy ===== *)
theory Merkle_Inclusion
  imports Merkle_Nav
begin

text \<open>
  File \<open>inclusion.go\<close> of \<open>internal/merkle\<close>: audit paths and their verification.
  The verifier's loop runs on 64-bit words as the code writes it; \<open>verifyInclusion_iff\<close>
  gives the recursive meaning of its answer, from which completeness and binding follow.
\<close>

section \<open>Audit paths\<close>

text \<open>\<open>None\<close> is the panic of \<open>largestPowerOfTwoLessThan\<close>, reached from an empty tree only.\<close>

function path :: "nat \<Rightarrow> bytes list \<Rightarrow> bytes list option" where
  "path m leaves =
    (let n = length leaves
     in if n = 1 then Some []
        else case largestPowerOfTwoLessThan n of
          None \<Rightarrow> None
        | Some k \<Rightarrow>
           (if m < k then map_option (\<lambda>p. p @ [mth (drop k leaves)]) (path m (take k leaves))
            else map_option (\<lambda>p. p @ [mth (take k leaves)]) (path (m - k) (drop k leaves))))"
  by pat_completeness auto
termination
  by (relation "measure (\<lambda>(m, ls). length ls)")
    (auto simp: largestPowerOfTwoLessThan_def pow2_below_bounds min_less_iff_disj not_less
      split: if_splits intro!: diff_less)

declare path.simps [simp del]

lemma path_single [simp]: "path m [h] = Some []"
  by (simp add: path.simps)

lemma path_split:
  "2 \<le> length leaves \<Longrightarrow> k = pow2_below (length leaves) \<Longrightarrow>
    path m leaves =
     (if m < k then map_option (\<lambda>p. p @ [mth (drop k leaves)]) (path m (take k leaves))
      else map_option (\<lambda>p. p @ [mth (take k leaves)]) (path (m - k) (drop k leaves)))"
  by (subst path.simps) (simp add: Let_def largestPowerOfTwoLessThan_def)

definition of_panic :: "'a option \<Rightarrow> ('e, 'a) go_result" where
  "of_panic x = (case x of None \<Rightarrow> Panic | Some v \<Rightarrow> Ok v)"

definition Proof :: "tree \<Rightarrow> u64 \<Rightarrow> (merkle_error, bytes list) go_result" where
  "Proof t idx =
    (let n = of_nat (length (t_leaves t)) :: u64
     in if n = 0 then Err (wrap_err ErrInvalidProof ''empty tree'')
        else if idx \<ge> n then Err (wrap_err ErrInvalidProof
          (''idx '' @ show_u64 idx @ '' out of range [0,'' @ show_u64 n @ '')''))
        else of_panic (path (unat idx) (t_leaves t)))"

definition ProofAt :: "tree \<Rightarrow> u64 \<Rightarrow> u64 \<Rightarrow> (merkle_error, bytes list) go_result" where
  "ProofAt t idx n =
    (if n > of_nat (length (t_leaves t)) then Err (wrap_err ErrInvalidProof
       (''size '' @ show_u64 n @ '' > current '' @ show_nat (length (t_leaves t))))
     else if n = 0 then Err (wrap_err ErrInvalidProof ''empty tree'')
     else if idx \<ge> n then Err (wrap_err ErrInvalidProof
       (''idx '' @ show_u64 idx @ '' out of range [0,'' @ show_u64 n @ '')''))
     else of_panic (path (unat idx) (take (unat n) (t_leaves t))))"

section \<open>The verifier\<close>

function skip_even :: "u64 \<Rightarrow> u64 \<Rightarrow> u64 \<times> u64" where
  "skip_even fn sn =
    (if fn AND 1 = 0 \<and> fn \<noteq> 0 then skip_even (drop_bit 1 fn) (drop_bit 1 sn) else (fn, sn))"
  by pat_completeness auto
termination
  by (relation "measure (\<lambda>(fn, sn). unat fn)") (auto simp: unat_gt_0)

declare skip_even.simps [simp del]

text \<open>The loop over the proof; on success it hands out \<open>r\<close> and \<open>sn\<close>.\<close>

fun incl_loop :: "u64 \<Rightarrow> u64 \<Rightarrow> bytes \<Rightarrow> bytes list \<Rightarrow> merkle_error + bytes \<times> u64" where
  "incl_loop fn sn r [] = Inr (r, sn)"
| "incl_loop fn sn r (p # ps) =
    (if length p \<noteq> HashSize then Inl (wrap_err ErrInvalidProof ''proof element wrong size'')
     else if sn = 0 then Inl (wrap_err ErrInvalidProof ''proof too long'')
     else if fn AND 1 = 1 \<or> fn = sn
       then (let (fn', sn') = skip_even fn sn
             in incl_loop (drop_bit 1 fn') (drop_bit 1 sn') (HashChildren p r) ps)
     else incl_loop (drop_bit 1 fn) (drop_bit 1 sn) (HashChildren r p) ps)"

text \<open>A verifier returns \<open>nil\<close> (\<open>None\<close>) or an error.\<close>

definition verifyInclusionFromHash ::
  "bytes \<Rightarrow> u64 \<Rightarrow> u64 \<Rightarrow> bytes list \<Rightarrow> bytes \<Rightarrow> merkle_error option" where
  "verifyInclusionFromHash leafHash idx n pf root =
    (if n = 0 then Some (wrap_err ErrInvalidProof ''tree size 0'')
     else if idx \<ge> n then Some (wrap_err ErrInvalidProof
       (''idx '' @ show_u64 idx @ '' >= size '' @ show_u64 n))
     else if length root \<noteq> HashSize then Some (wrap_err ErrInvalidProof
       (''root must be '' @ show_nat HashSize @ '' bytes''))
     else case incl_loop idx (n - 1) leafHash pf of
       Inl e \<Rightarrow> Some e
     | Inr (r, sn) \<Rightarrow>
        (if sn \<noteq> 0 then Some (wrap_err ErrInvalidProof ''proof too short'')
         else if r \<noteq> root then Some (wrap_err ErrRootMismatch
           (''derived '' @ hexEncode r @ '' != '' @ hexEncode root))
         else None))"

definition VerifyInclusion ::
  "bytes \<Rightarrow> u64 \<Rightarrow> u64 \<Rightarrow> bytes list \<Rightarrow> bytes \<Rightarrow> merkle_error option" where
  "VerifyInclusion leafData idx n pf root =
    verifyInclusionFromHash (HashLeaf leafData) idx n pf root"

definition VerifyInclusionHash ::
  "bytes \<Rightarrow> u64 \<Rightarrow> u64 \<Rightarrow> bytes list \<Rightarrow> bytes \<Rightarrow> merkle_error option" where
  "VerifyInclusionHash leafHash idx n pf root =
    (if length leafHash \<noteq> HashSize then Some (wrap_err ErrInvalidProof
       (''leaf hash must be '' @ show_nat HashSize @ '' bytes''))
     else verifyInclusionFromHash leafHash idx n pf root)"

section \<open>Climbing a path\<close>

fun climb :: "(bool \<times> bytes) list \<Rightarrow> bytes \<Rightarrow> bytes" where
  "climb [] r = r"
| "climb ((left, p) # xs) r = climb xs (if left then HashChildren p r else HashChildren r p)"

fun climb_inputs :: "(bool \<times> bytes) list \<Rightarrow> bytes \<Rightarrow> bytes list" where
  "climb_inputs [] r = []"
| "climb_inputs ((left, p) # xs) r =
    (if left then node_input p r else node_input r p)
      # climb_inputs xs (if left then HashChildren p r else HashChildren r p)"

lemma climb_append [simp]: "climb (xs @ ys) r = climb ys (climb xs r)"
  by (induction xs r rule: climb.induct) auto

lemma climb_inputs_append [simp]:
  "climb_inputs (xs @ ys) r = climb_inputs xs r @ climb_inputs ys (climb xs r)"
  by (induction xs r rule: climb_inputs.induct) auto

lemma length_climb: "length r = 32 \<Longrightarrow> length (climb xs r) = 32"
  by (induction xs r rule: climb.induct) auto

lemma skip_even_nskip: "skip_even fn sn = (f, s) \<Longrightarrow> nskip (unat fn) (unat sn) = (unat f, unat s)"
proof (induction fn sn rule: skip_even.induct)
  case (1 fn sn)
  show ?case
  proof (cases "fn AND 1 = 0 \<and> fn \<noteq> 0")
    case True
    then have "nskip (unat fn) (unat sn) = nskip (unat fn div 2) (unat sn div 2)"
      by (subst nskip.simps) (simp add: unat_eq_zero)
    moreover have "skip_even fn sn = skip_even (drop_bit 1 fn) (drop_bit 1 sn)"
      using True by (subst skip_even.simps) simp
    ultimately show ?thesis using 1 True by simp
  next
    case False
    then have "skip_even fn sn = (fn, sn)" by (subst skip_even.simps) auto
    moreover have "nskip (unat fn) (unat sn) = (unat fn, unat sn)"
      using False by (subst nskip.simps) (auto simp: unat_eq_zero)
    ultimately show ?thesis using 1 by simp
  qed
qed

text \<open>The loop follows \<open>nav\<close>: it succeeds exactly on proofs of the length of the walk.\<close>

lemma incl_loop_nav:
  "\<forall>p \<in> set ps. length p = 32 \<Longrightarrow>
    (length ps = length (nav (unat fn) (unat sn)) \<longrightarrow>
      incl_loop fn sn r ps = Inr (climb (zip (nav (unat fn) (unat sn)) ps) r, 0)) \<and>
    (length ps < length (nav (unat fn) (unat sn)) \<longrightarrow>
      (\<exists>r' s. incl_loop fn sn r ps = Inr (r', s) \<and> s \<noteq> 0)) \<and>
    (length (nav (unat fn) (unat sn)) < length ps \<longrightarrow>
      incl_loop fn sn r ps = Inl (wrap_err ErrInvalidProof ''proof too long''))"
proof (induction ps arbitrary: fn sn r)
  case Nil
  then show ?case by (auto simp: nav.simps [of "unat fn"] unat_eq_zero)
next
  case (Cons p ps)
  obtain f s where fs: "skip_even fn sn = (f, s)" by (cases "skip_even fn sn")
  have p: "length p = HashSize" using Cons.prems by (simp add: HashSize_def)
  show ?case
  proof (cases "sn = 0")
    case False
    show ?thesis
    proof (cases "fn AND 1 = 1 \<or> fn = sn")
      case True
      then have "nav (unat fn) (unat sn)
          = True # nav (unat (drop_bit 1 f)) (unat (drop_bit 1 s))"
        using False by (subst nav.simps) (simp add: unat_eq_zero skip_even_nskip [OF fs])
      moreover have "incl_loop fn sn r (p # ps)
          = incl_loop (drop_bit 1 f) (drop_bit 1 s) (HashChildren p r) ps"
        using True False p fs by simp
      ultimately show ?thesis
        using Cons.IH [of "drop_bit 1 f" "drop_bit 1 s" "HashChildren p r"] Cons.prems
        by (simp del: incl_loop.simps One_nat_def)
    next
      case below: False
      then have "nav (unat fn) (unat sn)
          = False # nav (unat (drop_bit 1 fn)) (unat (drop_bit 1 sn))"
        using False by (subst nav.simps) (simp add: unat_eq_zero word_unat_eq_iff [of fn sn])
      moreover have "incl_loop fn sn r (p # ps)
          = incl_loop (drop_bit 1 fn) (drop_bit 1 sn) (HashChildren r p) ps"
        using below False p by simp
      ultimately show ?thesis
        using Cons.IH [of "drop_bit 1 fn" "drop_bit 1 sn" "HashChildren r p"] Cons.prems
        by (simp del: incl_loop.simps One_nat_def)
    qed
  qed (simp add: p)
qed

section \<open>What the verifier decides\<close>

lemma nav_word_dirs:
  "n \<noteq> 0 \<Longrightarrow> idx < n \<Longrightarrow> nav (unat idx) (unat (n - 1)) = dirs (unat idx) (unat n)" for n :: u64
  using nav_dirs [of "unat idx" "unat n"] by (simp add: unat_u64_pred word_less_nat_alt)

lemma incl_loop_bad_element:
  "\<exists>p \<in> set ps. length p \<noteq> 32 \<Longrightarrow> \<exists>e. incl_loop fn sn r ps = Inl e"
  by (induction fn sn r ps rule: incl_loop.induct) (auto simp: HashSize_def split: prod.split)

lemma incl_loop_ok_iff:
  "incl_loop fn sn r ps = Inr (r', 0) \<longleftrightarrow>
    (\<forall>p \<in> set ps. length p = 32) \<and> length ps = length (nav (unat fn) (unat sn)) \<and>
    r' = climb (zip (nav (unat fn) (unat sn)) ps) r"
proof (cases "\<forall>p \<in> set ps. length p = 32")
  case True
  then show ?thesis
    using incl_loop_nav [OF True, of fn sn r]
    by (cases "length ps" "length (nav (unat fn) (unat sn))" rule: linorder_cases) auto
next
  case False
  then show ?thesis using incl_loop_bad_element [of ps fn sn r] by auto
qed

text \<open>
  The answer of the verifier in terms of the shape of the tree: accepted are exactly the
  proofs with one 32-byte sibling per level whose climb from the leaf ends in the root.
\<close>

lemma verifyInclusion_iff:
  "verifyInclusionFromHash h idx n pf root = None \<longleftrightarrow>
    idx < n \<and> length root = 32 \<and> (\<forall>p \<in> set pf. length p = 32) \<and>
    length pf = length (dirs (unat idx) (unat n)) \<and>
    climb (zip (dirs (unat idx) (unat n)) pf) h = root"
proof (cases "n \<noteq> 0 \<and> idx < n \<and> length root = 32")
  case True
  then have "verifyInclusionFromHash h idx n pf root = None \<longleftrightarrow>
      incl_loop idx (n - 1) h pf = Inr (root, 0)"
    by (auto simp: verifyInclusionFromHash_def HashSize_def not_le
        split: sum.splits if_splits)
  also have "\<dots> \<longleftrightarrow> (\<forall>p \<in> set pf. length p = 32) \<and>
      length pf = length (dirs (unat idx) (unat n)) \<and>
      root = climb (zip (dirs (unat idx) (unat n)) pf) h"
    using True nav_word_dirs [of n idx] by (simp add: incl_loop_ok_iff)
  finally show ?thesis using True by auto
next
  case False
  then show ?thesis by (auto simp: verifyInclusionFromHash_def HashSize_def not_le)
qed

section \<open>Completeness and binding\<close>

lemma dirs_split:
  "2 \<le> n \<Longrightarrow> k = pow2_below n \<Longrightarrow>
    dirs m n = (if m < k then dirs m k @ [False] else dirs (m - k) (n - k) @ [True])"
  by (subst dirs.simps) (simp add: Let_def)

lemma path_correct:
  "m < length leaves \<Longrightarrow> wf_leaves leaves \<Longrightarrow>
    \<exists>p. path m leaves = Some p \<and> (\<forall>h \<in> set p. length h = 32) \<and>
      length p = length (dirs m (length leaves)) \<and>
      climb (zip (dirs m (length leaves)) p) (leaves ! m) = mth leaves"
proof (induction leaves arbitrary: m rule: tree_shape_induct)
  case (Single h)
  then show ?case by (simp add: dirs.simps mth_single wf_leaves_def)
next
  case (Split leaves k)
  note k = pow2_below_bounds [OF Split(1), folded Split(2)]
  note eqs = path_split [OF Split(1,2)] dirs_split [OF Split(1,2)] mth_split [OF Split(1,2)]
  show ?case
  proof (cases "m < k")
    case True
    with Split.IH(1) [of m] Split.prems k show ?thesis by (auto simp: eqs)
  next
    case False
    with Split.prems(1) have "m - k < length leaves - k" by linarith
    with False obtain p where "path (m - k) (drop k leaves) = Some p" "\<forall>h \<in> set p. length h = 32"
        "length p = length (dirs (m - k) (length leaves - k))"
        "climb (zip (dirs (m - k) (length leaves - k)) p) (leaves ! m) = mth (drop k leaves)"
      using Split.IH(2) [of "m - k"] Split.prems k by auto
    with False show ?thesis by (simp add: eqs)
  qed
qed simp

text \<open>A climb that ends in the root of a tree started from its leaf, or a collision shows.\<close>

lemma climb_binding:
  "m < length leaves \<Longrightarrow> wf_leaves leaves \<Longrightarrow> length r = 32 \<Longrightarrow>
    \<forall>h \<in> set ps. length h = 32 \<Longrightarrow> length ps = length (dirs m (length leaves)) \<Longrightarrow>
    climb (zip (dirs m (length leaves)) ps) r = mth leaves \<Longrightarrow>
    (r = leaves ! m \<and> path m leaves = Some ps) \<or>
    collision_in (set (mth_inputs leaves) \<union>
      set (climb_inputs (zip (dirs m (length leaves)) ps) r))"
proof (induction leaves arbitrary: m ps rule: tree_shape_induct)
  case (Single h)
  then show ?case by (simp add: dirs.simps mth_single wf_leaves_def)
next
  case (Split leaves k)
  note k = pow2_below_bounds [OF Split(1), folded Split(2)]
  note eqs = dirs_split [OF Split(1,2), of m] mth_split [OF Split(1,2)]
    mth_inputs_split [OF Split(1,2)]
  obtain qs q where ps: "ps = qs @ [q]"
    using Split.prems(5) eqs(1) by (cases ps rule: rev_cases) (auto split: if_splits)
  let ?U = "set (mth_inputs leaves) \<union> set (climb_inputs (zip (dirs m (length leaves)) ps) r)"
  define sub i where "sub = (if m < k then take k leaves else drop k leaves)"
    and "i = (if m < k then m else m - k)"
  let ?d = "dirs i (length sub)"
  have d: "dirs m (length leaves) = ?d @ [\<not> m < k]"
    using eqs(1) k by (simp add: sub_def i_def)
  have len: "length qs = length ?d" "length q = 32" using Split.prems(4,5) d ps by simp_all
  define c where "c = climb (zip ?d qs) r"
  have c32: "length c = 32" using Split.prems(3) by (simp add: c_def length_climb)
  have inputs: "set (climb_inputs (zip ?d qs) r) \<union> set (mth_inputs sub) \<subseteq> ?U"
    using len by (auto simp: d ps eqs(3) sub_def)
  have root: "(if m < k then HashChildren c q else HashChildren q c)
      = HashChildren (mth (take k leaves)) (mth (drop k leaves))"
    using Split.prems(6) len by (simp add: d ps c_def eqs(2) split: if_split_asm)
  have "collision_in ?U \<or> (c = mth sub \<and> q = mth (if m < k then drop k leaves else take k leaves))"
  proof (cases "m < k")
    case True
    have "{node_input c q, node_input (mth (take k leaves)) (mth (drop k leaves))} \<subseteq> ?U"
      using len True by (auto simp: d ps c_def eqs(3))
    with root True c32 HashChildren_eq_32 [of c q] collision_mono show ?thesis
      by (fastforce simp: sub_def)
  next
    case False
    have "{node_input q c, node_input (mth (take k leaves)) (mth (drop k leaves))} \<subseteq> ?U"
      using len False by (auto simp: d ps c_def eqs(3))
    with root False len HashChildren_eq_32 [of q c] collision_mono show ?thesis
      by (fastforce simp: sub_def)
  qed
  then show ?case
  proof
    assume c: "c = mth sub \<and> q = mth (if m < k then drop k leaves else take k leaves)"
    have "(r = sub ! i \<and> path i sub = Some qs) \<or>
        collision_in (set (mth_inputs sub) \<union> set (climb_inputs (zip ?d qs) r))"
      using Split.IH(1) [of m qs] Split.IH(2) [of "m - k" qs] Split.prems k c len
      by (cases "m < k") (simp_all add: sub_def i_def c_def ps)
    then show ?thesis
    proof
      assume "r = sub ! i \<and> path i sub = Some qs"
      with c k Split.prems(1) show ?thesis
        by (cases "m < k") (simp_all add: path_split [OF Split(1,2)] sub_def i_def ps)
    next
      assume "collision_in (set (mth_inputs sub) \<union> set (climb_inputs (zip ?d qs) r))"
      from collision_mono [OF this] inputs show ?thesis by (simp add: Un_commute)
    qed
  qed simp
qed simp


section \<open>The tree's own proofs\<close>

lemma Proof_unfold:
  assumes "wf_tree t" "unat idx < length (t_leaves t)"
  shows "Proof t idx = of_panic (path (unat idx) (t_leaves t))"
proof -
  have "unat (of_nat (length (t_leaves t)) :: u64) = length (t_leaves t)"
    using assms(1) by (simp add: wf_tree_def unat_len)
  with assms(2) show ?thesis
    by (auto simp: Proof_def Let_def word_le_nat_alt simp flip: unat_eq_zero)
qed

lemma ProofAt_unfold:
  assumes "wf_tree t" "idx < n" "unat n \<le> length (t_leaves t)"
  shows "ProofAt t idx n = of_panic (path (unat idx) (take (unat n) (t_leaves t)))"
proof -
  have "\<not> n > of_nat (length (t_leaves t))" "n \<noteq> 0"
    using assms u64_le_len [of "t_leaves t" n] by (auto simp: wf_tree_def not_less)
  moreover have "\<not> idx \<ge> n" using assms(2) by simp
  ultimately show ?thesis by (simp only: ProofAt_def if_False)
qed

lemma ProofAt_full:
  "wf_tree t \<Longrightarrow> unat idx < length (t_leaves t) \<Longrightarrow> ProofAt t idx (Size t) = Proof t idx"
  by (simp add: ProofAt_unfold Proof_unfold Size_def wf_tree_def unat_len word_less_nat_alt)

lemma ProofAt_verifies:
  assumes "wf_tree t" "idx < n" "unat n \<le> length (t_leaves t)"
  obtains pf where "ProofAt t idx n = Ok pf"
    "verifyInclusionFromHash (t_leaves t ! unat idx) idx n pf (mth (take (unat n) (t_leaves t))) = None"
proof -
  let ?ls = "take (unat n) (t_leaves t)"
  have m: "unat idx < length ?ls" "wf_leaves ?ls" "length ?ls = unat n"
    using assms by (simp_all add: word_less_nat_alt wf_tree_def)
  from path_correct [OF m(1,2)] obtain p where p: "path (unat idx) ?ls = Some p"
      "\<forall>h \<in> set p. length h = 32" "length p = length (dirs (unat idx) (unat n))"
      "climb (zip (dirs (unat idx) (unat n)) p) (?ls ! unat idx) = mth ?ls"
    unfolding m(3) by auto
  have "?ls ! unat idx = t_leaves t ! unat idx" using m by simp
  with p assms(2) have "verifyInclusionFromHash (t_leaves t ! unat idx) idx n p (mth ?ls) = None"
    by (simp add: verifyInclusion_iff)
  moreover have "ProofAt t idx n = Ok p"
    using ProofAt_unfold [OF assms] p(1) by (simp add: of_panic_def)
  ultimately show thesis using that by blast
qed

end
