(* ===== verification/Merkle_Consistency.thy ===== *)
theory Merkle_Consistency
  imports Merkle_Inclusion
begin

text \<open>
  File \<open>consistency.go\<close> of \<open>internal/merkle\<close>: consistency proofs between two sizes of the
  log and the RFC 6962 verifier for them.  As for inclusion, \<open>VerifyConsistency_iff\<close> reads
  the verifier's bit arithmetic as a recursion over the shape of the tree; completeness and
  binding (an accepted proof really relates the two trees) follow.
\<close>

section \<open>Consistency proofs\<close>

text \<open>\<open>None\<close> is the panic of \<open>largestPowerOfTwoLessThan\<close>.\<close>

function subproof :: "nat \<Rightarrow> bytes list \<Rightarrow> bool \<Rightarrow> bytes list option" where
  "subproof m leaves atRoot =
    (let n = length leaves
     in if m = n then (if atRoot then Some [] else Some [mth leaves])
        else case largestPowerOfTwoLessThan n of
          None \<Rightarrow> None
        | Some k \<Rightarrow>
           (if m \<le> k
            then map_option (\<lambda>out. out @ [mth (drop k leaves)]) (subproof m (take k leaves) atRoot)
            else map_option (\<lambda>out. out @ [mth (take k leaves)])
              (subproof (m - k) (drop k leaves) False)))"
  by pat_completeness auto
termination
  by (relation "measure (\<lambda>(m, ls, b). length ls)")
    (auto simp: largestPowerOfTwoLessThan_def pow2_below_bounds min_less_iff_disj not_less
      split: if_splits intro!: diff_less)

declare subproof.simps [simp del]

lemma subproof_full: "m = length leaves \<Longrightarrow>
    subproof m leaves b = (if b then Some [] else Some [mth leaves])"
  by (subst subproof.simps) simp

lemma subproof_split:
  "2 \<le> length leaves \<Longrightarrow> k = pow2_below (length leaves) \<Longrightarrow> m \<noteq> length leaves \<Longrightarrow>
    subproof m leaves b =
     (if m \<le> k then map_option (\<lambda>out. out @ [mth (drop k leaves)]) (subproof m (take k leaves) b)
      else map_option (\<lambda>out. out @ [mth (take k leaves)]) (subproof (m - k) (drop k leaves) False))"
  by (subst subproof.simps) (simp add: Let_def largestPowerOfTwoLessThan_def)

definition ProofForRange :: "tree \<Rightarrow> u64 \<Rightarrow> u64 \<Rightarrow> (merkle_error, bytes list) go_result" where
  "ProofForRange t oldSize newSize =
    (if newSize > of_nat (length (t_leaves t)) then Err (wrap_err ErrInvalidProof
       (''newSize '' @ show_u64 newSize @ '' > current '' @ show_nat (length (t_leaves t))))
     else if oldSize > newSize then Err (wrap_err ErrSizeRegression
       (''oldSize '' @ show_u64 oldSize @ '' > newSize '' @ show_u64 newSize))
     else if oldSize = 0 \<or> oldSize = newSize then Ok []
     else of_panic (subproof (unat oldSize) (take (unat newSize) (t_leaves t)) True))"

section \<open>The verifier\<close>

function skip_ones :: "u64 \<Rightarrow> u64 \<Rightarrow> u64 \<times> u64" where
  "skip_ones fn sn =
    (if fn AND 1 = 1 then skip_ones (drop_bit 1 fn) (drop_bit 1 sn) else (fn, sn))"
  by pat_completeness auto
termination
  by (relation "measure (\<lambda>(fn, sn). unat fn)") (auto elim: oddE)

declare skip_ones.simps [simp del]

text \<open>The loop \<open>for sn > 0\<close>; it hands out \<open>fr\<close>, \<open>sr\<close> and the unread proof nodes.\<close>

fun cons_loop ::
  "u64 \<Rightarrow> u64 \<Rightarrow> bytes \<Rightarrow> bytes \<Rightarrow> bytes list \<Rightarrow>
    merkle_error + bytes \<times> bytes \<times> bytes list" where
  "cons_loop fn sn fr sr [] =
    (if sn = 0 then Inr (fr, sr, [])
     else Inl (wrap_err ErrInvalidProof
       (''proof exhausted at fn='' @ show_u64 fn @ '' sn='' @ show_u64 sn)))"
| "cons_loop fn sn fr sr (c # rest) =
    (if sn = 0 then Inr (fr, sr, c # rest)
     else if fn AND 1 = 1 \<or> fn = sn
       then (let (fn', sn') = skip_even fn sn
             in cons_loop (drop_bit 1 fn') (drop_bit 1 sn') (HashChildren c fr) (HashChildren c sr) rest)
     else cons_loop (drop_bit 1 fn) (drop_bit 1 sn) fr (HashChildren sr c) rest)"

definition isPowerOfTwo :: "u64 \<Rightarrow> bool" where
  "isPowerOfTwo n = (n > 0 \<and> n AND (n - 1) = 0)"

text \<open>The part after the loop.\<close>

definition cons_finish ::
  "bytes \<Rightarrow> bytes \<Rightarrow> merkle_error + bytes \<times> bytes \<times> bytes list \<Rightarrow> merkle_error option"
where
  "cons_finish oldRoot newRoot res =
    (case res of
       Inl e \<Rightarrow> Some e
     | Inr (fr, sr, work) \<Rightarrow>
        (if length work \<noteq> 0 then Some (wrap_err ErrInvalidProof
           (show_nat (length work) @ '' unused proof nodes''))
         else if fr \<noteq> oldRoot then Some (wrap_err ErrRootMismatch
           (''derived old root '' @ hexEncode fr @ '' != '' @ hexEncode oldRoot))
         else if sr \<noteq> newRoot then Some (wrap_err ErrRootMismatch
           (''derived new root '' @ hexEncode sr @ '' != '' @ hexEncode newRoot))
         else None))"

definition VerifyConsistency ::
  "bytes \<Rightarrow> bytes \<Rightarrow> u64 \<Rightarrow> u64 \<Rightarrow> bytes list \<Rightarrow> merkle_error option" where
  "VerifyConsistency oldRoot newRoot oldSize newSize pf =
    (if oldSize > newSize then Some (wrap_err ErrSizeRegression
       (''oldSize '' @ show_u64 oldSize @ '' > newSize '' @ show_u64 newSize))
     else if oldSize = newSize then
       (if oldRoot \<noteq> newRoot
        then Some (wrap_err ErrRootMismatch ''equal sizes but different roots'')
        else if length pf \<noteq> 0
        then Some (wrap_err ErrInvalidProof ''equal sizes require empty proof'')
        else None)
     else if oldSize = 0 then
       (if length pf \<noteq> 0
        then Some (wrap_err ErrInvalidProof ''oldSize=0 requires empty proof'')
        else None)
     else let (fn, sn) = skip_ones (oldSize - 1) (newSize - 1)
     in if isPowerOfTwo oldSize
        then cons_finish oldRoot newRoot (cons_loop fn sn oldRoot oldRoot pf)
        else case pf of
          [] \<Rightarrow> Some (wrap_err ErrInvalidProof ''proof exhausted before consuming first node'')
        | w # work \<Rightarrow> cons_finish oldRoot newRoot (cons_loop fn sn w w work))"

section \<open>Climbing with two accumulators\<close>

fun climb2 :: "(bool \<times> bytes) list \<Rightarrow> bytes \<times> bytes \<Rightarrow> bytes \<times> bytes" where
  "climb2 [] p = p"
| "climb2 ((left, c) # xs) (fr, sr) =
    climb2 xs (if left then (HashChildren c fr, HashChildren c sr) else (fr, HashChildren sr c))"

fun climb2_inputs :: "(bool \<times> bytes) list \<Rightarrow> bytes \<times> bytes \<Rightarrow> bytes list" where
  "climb2_inputs [] p = []"
| "climb2_inputs ((left, c) # xs) (fr, sr) =
    (if left then [node_input c fr, node_input c sr] else [node_input sr c])
      @ climb2_inputs xs
          (if left then (HashChildren c fr, HashChildren c sr) else (fr, HashChildren sr c))"

lemma climb2_append [simp]: "climb2 (xs @ ys) p = climb2 ys (climb2 xs p)"
  by (induction xs p rule: climb2.induct) auto

lemma climb2_inputs_append [simp]:
  "climb2_inputs (xs @ ys) p = climb2_inputs xs p @ climb2_inputs ys (climb2 xs p)"
  by (induction xs p rule: climb2_inputs.induct) auto

lemma skip_ones_nones: "skip_ones fn sn = (f, s) \<Longrightarrow> nones (unat fn) (unat sn) = (unat f, unat s)"
proof (induction fn sn rule: skip_ones.induct)
  case (1 fn sn)
  then show ?case
    by (cases "fn AND 1 = 1") (simp_all add: skip_ones.simps [of fn] nones.simps [of "unat fn"])
qed

text \<open>The loop follows \<open>nav\<close> and reads one proof node per level.\<close>

lemma cons_loop_nav:
  "(length (nav (unat fn) (unat sn)) \<le> length ps \<longrightarrow>
     (let ds = nav (unat fn) (unat sn); (f, s) = climb2 (zip ds ps) (fr, sr)
      in cons_loop fn sn fr sr ps = Inr (f, s, drop (length ds) ps))) \<and>
   (length ps < length (nav (unat fn) (unat sn)) \<longrightarrow> (\<exists>e. cons_loop fn sn fr sr ps = Inl e))"
proof (induction ps arbitrary: fn sn fr sr)
  case Nil
  then show ?case by (auto simp: nav.simps [of "unat fn"] unat_eq_zero)
next
  case (Cons c ps)
  obtain f s where fs: "skip_even fn sn = (f, s)" by (cases "skip_even fn sn")
  show ?case
  proof (cases "sn = 0")
    case False
    show ?thesis
    proof (cases "fn AND 1 = 1 \<or> fn = sn")
      case True
      then have "nav (unat fn) (unat sn)
          = True # nav (unat (drop_bit 1 f)) (unat (drop_bit 1 s))"
        using False by (subst nav.simps) (simp add: unat_eq_zero skip_even_nskip [OF fs])
      moreover have "cons_loop fn sn fr sr (c # ps)
          = cons_loop (drop_bit 1 f) (drop_bit 1 s) (HashChildren c fr) (HashChildren c sr) ps"
        using True False fs by simp
      ultimately show ?thesis
        using Cons.IH [of "drop_bit 1 f" "drop_bit 1 s" "HashChildren c fr" "HashChildren c sr"]
        by (simp del: cons_loop.simps One_nat_def add: Let_def)
    next
      case below: False
      then have "nav (unat fn) (unat sn)
          = False # nav (unat (drop_bit 1 fn)) (unat (drop_bit 1 sn))"
        using False by (subst nav.simps) (simp add: unat_eq_zero word_unat_eq_iff [of fn sn])
      moreover have "cons_loop fn sn fr sr (c # ps)
          = cons_loop (drop_bit 1 fn) (drop_bit 1 sn) fr (HashChildren sr c) ps"
        using below False by simp
      ultimately show ?thesis
        using Cons.IH [of "drop_bit 1 fn" "drop_bit 1 sn" fr "HashChildren sr c"]
        by (simp del: cons_loop.simps One_nat_def add: Let_def)
    qed
  qed simp
qed

lemma cons_finish_loop:
  "cons_finish oldRoot newRoot (cons_loop fn sn seed seed work) = None \<longleftrightarrow>
    length work = length (nav (unat fn) (unat sn)) \<and>
    climb2 (zip (nav (unat fn) (unat sn)) work) (seed, seed) = (oldRoot, newRoot)"
  using cons_loop_nav [of fn sn work seed seed]
  by (cases "climb2 (zip (nav (unat fn) (unat sn)) work) (seed, seed)";
      cases "length work" "length (nav (unat fn) (unat sn))" rule: linorder_cases)
    (auto simp: cons_finish_def Let_def)


section \<open>The power-of-two test\<close>

lemma nat_pow2_test: "0 < n \<Longrightarrow> n AND (n - 1) = 0 \<longleftrightarrow> (\<exists>i. n = 2 ^ i)" for n :: nat
proof (induction n rule: less_induct)
  case (less n)
  show ?case
  proof (cases "even n")
    case True
    then obtain k where n: "n = 2 * k" by blast
    with less.prems have k: "0 < k" "k < n" by auto
    have "(n - 1) div 2 = k - 1" "even n" "odd (n - 1)" using n k by presburger+
    then have "n AND (n - 1) = 2 * (k AND (k - 1))"
      by (subst and_rec) (simp add: n)
    moreover have "(\<exists>i. n = 2 ^ i) \<longleftrightarrow> (\<exists>i. k = 2 ^ i)"
    proof
      assume "\<exists>i. n = 2 ^ i"
      then obtain i where i: "n = 2 ^ i" ..
      with True have "i \<noteq> 0" by (cases i) auto
      then obtain l where "i = Suc l" by (cases i) auto
      with i n show "\<exists>i. k = 2 ^ i" by auto
    next
      assume "\<exists>i. k = 2 ^ i"
      with n show "\<exists>i. n = 2 ^ i" by (metis power_Suc)
    qed
    ultimately show ?thesis using less.IH [OF k(2,1)] by simp
  next
    case False
    then obtain k where n: "n = 2 * k + 1" by (elim oddE)
    have "n AND (n - 1) = 2 * (k AND k)" by (subst and_rec) (simp add: n)
    then have "n AND (n - 1) = 0 \<longleftrightarrow> n = 1" by (simp add: n)
    moreover have "(\<exists>i. n = 2 ^ i) \<longleftrightarrow> n = 1"
      using False by (metis even_power even_numeral power_0 neq0_conv)
    ultimately show ?thesis by simp
  qed
qed

lemma isPowerOfTwo_iff: "isPowerOfTwo n \<longleftrightarrow> (\<exists>i. unat n = 2 ^ i)"
proof (cases "n = 0")
  case False
  have "unat (n AND (n - 1)) = unat n AND (unat n - 1)"
    using False by (simp add: unsigned_and_eq unat_u64_pred)
  then have "n AND (n - 1) = 0 \<longleftrightarrow> unat n AND (unat n - 1) = 0"
    by (simp flip: unat_eq_zero)
  moreover have "0 < n" "0 < unat n" using False by (simp_all add: word_gt_0 unat_gt_0)
  ultimately show ?thesis
    using nat_pow2_test [of "unat n"] by (simp add: isPowerOfTwo_def)
qed (simp add: isPowerOfTwo_def)

lemma cdirs_split:
  "2 \<le> n \<Longrightarrow> k = pow2_below n \<Longrightarrow> m \<noteq> n \<Longrightarrow>
    cdirs m n = (if m \<le> k then cdirs m k @ [False] else cdirs (m - k) (n - k) @ [True])"
  by (subst cdirs.simps) (simp add: Let_def)

lemma cdirs_same [simp]: "cdirs n n = []"
  by (simp add: cdirs.simps)

lemma cdirs_left_spine:
  "1 \<le> m \<Longrightarrow> m < n \<Longrightarrow> True \<notin> set (cdirs m n) \<longleftrightarrow> (\<exists>i. m = 2 ^ i)"
proof (induction m n rule: cdirs.induct)
  case (1 m n)
  then have n: "2 \<le> n" "\<not> (m = n \<or> n \<le> 1)" by auto
  obtain i where i: "pow2_below n = 2 ^ i" using pow2_below_spec [OF n(1)] .
  note split = cdirs_split [OF n(1) refl, of m]
  show ?case
  proof
    assume spine: "True \<notin> set (cdirs m n)"
    with split n have m: "m \<le> 2 ^ i" "True \<notin> set (cdirs m (2 ^ i))"
      by (auto simp: i split: if_splits)
    then show "\<exists>i. m = 2 ^ i"
      using "1.IH"(1) [OF n(2) i [symmetric] m(1) "1.prems"(1)] by (cases "m = 2 ^ i") auto
  next
    assume "\<exists>i. m = 2 ^ i"
    with "1.prems" show "True \<notin> set (cdirs m n)" using cdirs_pow2 by auto
  qed
qed

section \<open>What the verifier decides\<close>

lemma nav_word_cdirs:
  fixes m n :: u64
  assumes "0 < m" "m < n"
  shows "case skip_ones (m - 1) (n - 1) of
    (f, s) \<Rightarrow> nav (unat f) (unat s) = cdirs (unat m) (unat n)"
proof -
  obtain f s where fs: "skip_ones (m - 1) (n - 1) = (f, s)" by (cases "skip_ones (m - 1) (n - 1)")
  have ne: "m \<noteq> 0" "n \<noteq> 0" using assms by auto
  with assms have "1 \<le> unat m" "unat m < unat n"
    by (simp_all add: word_less_nat_alt Suc_le_eq)
  from nav_cdirs [OF this] skip_ones_nones [OF fs] ne fs show ?thesis
    by (simp add: unat_u64_pred)
qed

lemma VerifyConsistency_iff:
  assumes "0 < m" "m < n"
  shows "VerifyConsistency oldRoot newRoot m n pf = None \<longleftrightarrow>
    (\<exists>seed tail. pf = (if isPowerOfTwo m then tail else seed # tail) \<and>
      (isPowerOfTwo m \<longrightarrow> seed = oldRoot) \<and>
      length tail = length (cdirs (unat m) (unat n)) \<and>
      climb2 (zip (cdirs (unat m) (unat n)) tail) (seed, seed) = (oldRoot, newRoot))"
proof -
  obtain f s where fs: "skip_ones (m - 1) (n - 1) = (f, s)" by (cases "skip_ones (m - 1) (n - 1)")
  have "VerifyConsistency oldRoot newRoot m n pf =
      (if isPowerOfTwo m then cons_finish oldRoot newRoot (cons_loop f s oldRoot oldRoot pf)
       else case pf of
         [] \<Rightarrow> Some (wrap_err ErrInvalidProof ''proof exhausted before consuming first node'')
       | w # work \<Rightarrow> cons_finish oldRoot newRoot (cons_loop f s w w work))"
    using assms by (auto simp: VerifyConsistency_def fs)
  moreover have "nav (unat f) (unat s) = cdirs (unat m) (unat n)"
    using nav_word_cdirs [OF assms] by (simp add: fs)
  ultimately show ?thesis
    by (cases pf) (simp_all add: cons_finish_loop del: cons_loop.simps)
qed

section \<open>Completeness\<close>

lemma mth_take_split:
  assumes "2 \<le> n" "n = length leaves" "k = pow2_below n" "k < m" "m \<le> n"
  shows "mth (take m leaves) = HashChildren (mth (take k leaves)) (mth (take (m - k) (drop k leaves)))"
proof -
  obtain i where i: "pow2_below n = 2 ^ i" "2 ^ i < n" "n \<le> 2 * 2 ^ i"
    using pow2_below_spec [OF assms(1)] .
  then have "pow2_below m = k" using assms pow2_below_unique [of i m] by simp
  moreover have "2 \<le> length (take m leaves)"
    using assms pow2_below_bounds(1) [OF assms(1)] by simp
  moreover have "length (take m leaves) = m" "min k m = k" using assms by auto
  ultimately show ?thesis
    using mth_split [of "take m leaves" k] by (simp add: drop_take)
qed

lemma subproof_correct:
  "1 \<le> m \<Longrightarrow> m \<le> length leaves \<Longrightarrow>
    \<exists>seed tail.
      subproof m leaves b =
        Some (if b \<and> True \<notin> set (cdirs m (length leaves)) then tail else seed # tail) \<and>
      length tail = length (cdirs m (length leaves)) \<and>
      climb2 (zip (cdirs m (length leaves)) tail) (seed, seed)
        = (mth (take m leaves), mth leaves) \<and>
      (True \<notin> set (cdirs m (length leaves)) \<longrightarrow> seed = mth (take m leaves))"
proof (induction leaves arbitrary: m b rule: tree_shape_induct)
  case (Single h)
  then have "m = 1" by simp
  then show ?case by (auto simp: subproof_full)
next
  case (Split leaves k)
  note k = pow2_below_bounds [OF Split(1), folded Split(2)]
  show ?case
  proof (cases "m = length leaves")
    case True
    then show ?thesis by (auto simp: subproof_full)
  next
    case False
    note eqs = subproof_split [OF Split(1,2) False] cdirs_split [OF Split(1,2) False]
      mth_split [OF Split(1,2)]
    show ?thesis
    proof (cases "m \<le> k")
      case True
      have "1 \<le> m" "m \<le> length (take k leaves)" using True Split.prems k by auto
      from Split.IH(1) [OF this, of b] obtain seed tail where
        "subproof m (take k leaves) b =
           Some (if b \<and> True \<notin> set (cdirs m k) then tail else seed # tail)"
        "length tail = length (cdirs m k)"
        "climb2 (zip (cdirs m k) tail) (seed, seed) = (mth (take m leaves), mth (take k leaves))"
        "True \<notin> set (cdirs m k) \<longrightarrow> seed = mth (take m leaves)"
        using True k by (simp add: min_absorb1 min_absorb2) blast
      with True show ?thesis
        by (intro exI [of _ seed] exI [of _ "tail @ [mth (drop k leaves)]"]) (simp add: eqs)
    next
      case above: False
      then have "1 \<le> m - k" "m - k \<le> length (drop k leaves)" using Split.prems by auto
      from Split.IH(2) [OF this, of False] obtain seed tail where st:
        "subproof (m - k) (drop k leaves) False = Some (seed # tail)"
        "length tail = length (cdirs (m - k) (length leaves - k))"
        "climb2 (zip (cdirs (m - k) (length leaves - k)) tail) (seed, seed)
          = (mth (take (m - k) (drop k leaves)), mth (drop k leaves))"
        by auto
      have "mth (take m leaves)
          = HashChildren (mth (take k leaves)) (mth (take (m - k) (drop k leaves)))"
        using mth_take_split [OF Split(1) refl Split(2)] above Split.prems(2) by simp
      with above st show ?thesis
        by (intro exI [of _ seed] exI [of _ "tail @ [mth (take k leaves)]"]) (simp add: eqs)
    qed
  qed
qed simp

text \<open>The log's own proof between any two of its sizes is accepted.\<close>

lemma ProofForRange_verifies:
  assumes "wf_tree t" "m \<le> n" "unat n \<le> length (t_leaves t)"
  obtains pf where "ProofForRange t m n = Ok pf"
    "VerifyConsistency (mth (take (unat m) (t_leaves t))) (mth (take (unat n) (t_leaves t))) m n pf
      = None"
proof (cases "m = 0 \<or> m = n")
  case True
  have "\<not> n > of_nat (length (t_leaves t))" "\<not> m > n"
    using assms u64_le_len [of "t_leaves t" n] by (auto simp: wf_tree_def not_less)
  with True have "ProofForRange t m n = Ok []" by (simp only: ProofForRange_def if_False if_True)
  moreover have "VerifyConsistency (mth (take (unat m) (t_leaves t)))
      (mth (take (unat n) (t_leaves t))) m n [] = None"
    using True assms(2) by (auto simp: VerifyConsistency_def)
  ultimately show thesis using that by blast
next
  case False
  then have mn: "0 < m" "m < n" using assms(2) by (auto simp: word_gt_0)
  let ?ls = "take (unat n) (t_leaves t)"
  have len: "length ?ls = unat n" "1 \<le> unat m" "unat m < unat n" "unat m \<le> length ?ls"
    using assms(3) mn by (auto simp: word_less_nat_alt unat_gt_0 Suc_le_eq)
  have spine: "True \<notin> set (cdirs (unat m) (unat n)) \<longleftrightarrow> isPowerOfTwo m"
    using cdirs_left_spine [OF len(2,3)] by (simp add: isPowerOfTwo_iff)
  have take: "take (unat m) ?ls = take (unat m) (t_leaves t)" using len(3) by (simp add: min_def)
  from subproof_correct [OF len(2,4), of True] obtain seed tail where st:
    "subproof (unat m) ?ls True = Some (if isPowerOfTwo m then tail else seed # tail)"
    "length tail = length (cdirs (unat m) (unat n))"
    "climb2 (zip (cdirs (unat m) (unat n)) tail) (seed, seed)
      = (mth (take (unat m) (t_leaves t)), mth ?ls)"
    "isPowerOfTwo m \<longrightarrow> seed = mth (take (unat m) (t_leaves t))"
    unfolding len(1) spine take by auto
  have "\<not> n > of_nat (length (t_leaves t))" "\<not> m > n" "\<not> (m = 0 \<or> m = n)"
    using assms False u64_le_len [of "t_leaves t" n] by (auto simp: wf_tree_def not_less)
  then have "ProofForRange t m n = of_panic (subproof (unat m) ?ls True)"
    by (simp only: ProofForRange_def if_False)
  with st(1) have "ProofForRange t m n = Ok (if isPowerOfTwo m then tail else seed # tail)"
    by (simp add: of_panic_def)
  moreover have "VerifyConsistency (mth (take (unat m) (t_leaves t))) (mth ?ls) m n
      (if isPowerOfTwo m then tail else seed # tail) = None"
    using st(2-4) by (auto simp: VerifyConsistency_iff [OF mn])
  ultimately show thesis using that by blast
qed


section \<open>Binding\<close>

lemma climb2_snd: "climb2 xs (r, r) = (f, s) \<Longrightarrow> xs \<noteq> [] \<Longrightarrow> length s = 32"
proof -
  have "climb2 xs (a, b) = (f, s) \<Longrightarrow> xs = [] \<or> length s = 32" for a b
  proof (induction xs arbitrary: a b rule: rev_induct)
    case (snoc x xs)
    obtain d c where "x = (d, c)" by (cases x)
    with snoc.prems show ?case
      by (cases "climb2 xs (a, b)") (auto split: if_splits)
  qed simp
  then show "climb2 xs (r, r) = (f, s) \<Longrightarrow> xs \<noteq> [] \<Longrightarrow> length s = 32" by blast
qed

lemma cdirs_not_Nil: "1 \<le> m \<Longrightarrow> m < n \<Longrightarrow> cdirs m n \<noteq> []"
  by (subst cdirs.simps) (auto simp: Let_def)

text \<open>One level of the binding argument: the last proof node and the two climbs.\<close>

lemma climb2_binding:
  "1 \<le> length olds \<Longrightarrow> length olds \<le> length news \<Longrightarrow> wf_leaves olds \<Longrightarrow> wf_leaves news \<Longrightarrow>
    length tail = length (cdirs (length olds) (length news)) \<Longrightarrow>
    climb2 (zip (cdirs (length olds) (length news)) tail) (seed, seed) = (mth olds, mth news) \<Longrightarrow>
    olds = take (length olds) news \<or>
    collision_in (set (mth_inputs olds) \<union> set (mth_inputs news) \<union>
      set (climb2_inputs (zip (cdirs (length olds) (length news)) tail) (seed, seed)))"
proof (induction news arbitrary: olds tail rule: tree_shape_induct)
  case (Single h)
  then have "length olds = length [h]" by simp
  with Single mth_binding [of olds "[h]"] show ?case by (auto elim: collision_mono)
next
  case (Split news k)
  note k = pow2_below_bounds [OF Split(1), folded Split(2)]
  let ?m = "length olds"
  let ?U = "set (mth_inputs olds) \<union> set (mth_inputs news) \<union>
    set (climb2_inputs (zip (cdirs ?m (length news)) tail) (seed, seed))"
  have mono: "X \<subseteq> ?U \<Longrightarrow> collision_in X \<Longrightarrow> collision_in ?U" for X
    by (rule collision_mono)
  show ?case
  proof (cases "?m = length news")
    case True
    with Split.prems mth_binding [of olds news] show ?thesis by (auto elim: collision_mono)
  next
    case False
    note eqs = cdirs_split [OF Split(1,2) False] mth_split [OF Split(1,2)]
      mth_inputs_split [OF Split(1,2)]
    obtain qs q where tail: "tail = qs @ [q]"
      using Split.prems(5) eqs(1) by (cases tail rule: rev_cases) (auto split: if_splits)
    show ?thesis
    proof (cases "?m \<le> k")
      case True
      let ?d = "cdirs ?m k"
      obtain f s where fs: "climb2 (zip ?d qs) (seed, seed) = (f, s)" by fastforce
      have len: "length qs = length ?d" using Split.prems(5) True by (simp add: eqs(1) tail)
      have f: "f = mth olds" and root: "HashChildren s q
          = HashChildren (mth (take k news)) (mth (drop k news))"
        using Split.prems(6) len True fs by (simp_all add: eqs(1,2) tail)
      have s32: "length s = 32"
      proof (cases "?m = k")
        case True
        with fs f have "s = mth olds" by auto
        then show ?thesis by simp
      next
        case False
        with True cdirs_not_Nil [of ?m k] Split.prems(1) len
        have "zip ?d qs \<noteq> []" by (cases qs; cases "?d") auto
        with climb2_snd [OF fs] show ?thesis by simp
      qed
      have pair: "{node_input s q, node_input (mth (take k news)) (mth (drop k news))} \<subseteq> ?U"
        and sub: "set (mth_inputs olds) \<union> set (mth_inputs (take k news)) \<union>
          set (climb2_inputs (zip ?d qs) (seed, seed)) \<subseteq> ?U"
        using len True fs by (auto simp: eqs tail)
      from HashChildren_eq_32 [OF root] s32 mono [OF pair] have
        "collision_in ?U \<or> s = mth (take k news)" by auto
      then show ?thesis
      proof
        assume "s = mth (take k news)"
        with Split.IH(1) [of olds qs] Split.prems True k fs f len
        have "olds = take ?m (take k news) \<or> collision_in
            (set (mth_inputs olds) \<union> set (mth_inputs (take k news)) \<union>
              set (climb2_inputs (zip ?d qs) (seed, seed)))"
          by simp
        then show ?thesis
        proof
          assume "olds = take ?m (take k news)"
          with True show ?thesis by (simp add: min_def)
        qed (blast intro: mono [OF sub])
      qed simp
    next
      case above: False
      let ?d = "cdirs (?m - k) (length news - k)" and ?L = "take k olds" and ?R = "drop k olds"
      have m: "2 \<le> ?m" "k = pow2_below ?m" "1 \<le> ?m - k" "?m - k < length news - k"
      proof -
        obtain i where "pow2_below (length news) = 2 ^ i" "2 ^ i < length news"
            "length news \<le> 2 * 2 ^ i"
          using pow2_below_spec [OF Split(1)] .
        with above Split(2) Split.prems(2) pow2_below_unique [of i ?m]
        show "k = pow2_below ?m" by simp
      qed (use above k False Split.prems(2) in simp_all)
      obtain f s where fs: "climb2 (zip ?d qs) (seed, seed) = (f, s)" by fastforce
      have len: "length qs = length ?d" using Split.prems(5) above by (simp add: eqs(1) tail)
      have "zip ?d qs \<noteq> []"
        using cdirs_not_Nil [OF m(3,4)] len by (cases qs; cases "?d") auto
      then have s32: "length s = 32" by (rule climb2_snd [OF fs])
      have rootf: "HashChildren q f = HashChildren (mth ?L) (mth ?R)"
        and roots: "HashChildren q s = HashChildren (mth (take k news)) (mth (drop k news))"
        using Split.prems(6) len above fs mth_split [OF m(1,2)] by (simp_all add: eqs(1,2) tail)
      have pairs: "{node_input q s, node_input (mth (take k news)) (mth (drop k news))} \<subseteq> ?U"
        "{node_input q f, node_input (mth ?L) (mth ?R)} \<subseteq> ?U"
        and sub: "set (mth_inputs ?R) \<union> set (mth_inputs (drop k news)) \<union>
          set (climb2_inputs (zip ?d qs) (seed, seed)) \<subseteq> ?U"
          "set (mth_inputs ?L) \<union> set (mth_inputs (take k news)) \<subseteq> ?U"
        using len above fs by (auto simp: eqs tail mth_inputs_split [OF m(1,2)])
      have "collision_in ?U \<or> (q = mth (take k news) \<and> s = mth (drop k news))"
      proof -
        from HashChildren_eq [OF roots] mono [OF pairs(1)]
        have "collision_in ?U \<or> q @ s = mth (take k news) @ mth (drop k news)" by blast
        moreover have "length s = length (mth (drop k news))" by (simp add: s32)
        ultimately show ?thesis by (auto simp: append_eq_append_conv)
      qed
      moreover have "q = mth (take k news) \<Longrightarrow> collision_in ?U \<or> (q = mth ?L \<and> f = mth ?R)"
        using HashChildren_eq_32 [OF rootf] mono [OF pairs(2)] by auto
      ultimately consider "collision_in ?U"
        | (eq) "mth ?L = mth (take k news)" "f = mth ?R" "s = mth (drop k news)"
        by auto
      then show ?thesis
      proof cases
        case eq
        have "?L = take k news \<or> collision_in ?U"
          using mth_binding [of ?L "take k news"] eq(1) Split.prems(3,4) above k mono [OF sub(2)]
          by auto
        moreover have "?R = take (?m - k) (drop k news) \<or> collision_in ?U"
          using Split.IH(2) [of ?R qs] Split.prems m fs eq(2,3) len mono [OF sub(1)] by auto
        ultimately show ?thesis
        proof (elim disjE)
          assume "?L = take k news" "?R = take (?m - k) (drop k news)"
          then have "olds = take k news @ take (?m - k) (drop k news)"
            by (metis append_take_drop_id)
          also have "\<dots> = take ?m news"
            using above by (metis le_add_diff_inverse nat_le_linear take_add)
          finally show ?thesis by simp
        qed simp_all
      qed simp
    qed
  qed
qed simp

text \<open>What \<open>VerifyConsistency\<close> hashes on its way.\<close>

definition consistency_inputs :: "bytes \<Rightarrow> u64 \<Rightarrow> u64 \<Rightarrow> bytes list \<Rightarrow> bytes list" where
  "consistency_inputs oldRoot m n pf =
    (let ds = cdirs (unat m) (unat n)
     in if isPowerOfTwo m then climb2_inputs (zip ds pf) (oldRoot, oldRoot)
        else case pf of [] \<Rightarrow> [] | w # work \<Rightarrow> climb2_inputs (zip ds work) (w, w))"

lemma VerifyConsistency_binding:
  assumes "VerifyConsistency (mth olds) (mth news) m n pf = None" "0 < m"
    and "wf_leaves olds" "wf_leaves news" "length olds = unat m" "length news = unat n"
  shows "(unat m \<le> unat n \<and> olds = take (unat m) news) \<or>
    collision_in (set (mth_inputs olds) \<union> set (mth_inputs news) \<union>
      set (consistency_inputs (mth olds) m n pf))"
proof (cases "m < n")
  case True
  from VerifyConsistency_iff [OF assms(2) True] assms(1) obtain seed tail where st:
    "pf = (if isPowerOfTwo m then tail else seed # tail)" "isPowerOfTwo m \<longrightarrow> seed = mth olds"
    "length tail = length (cdirs (unat m) (unat n))"
    "climb2 (zip (cdirs (unat m) (unat n)) tail) (seed, seed) = (mth olds, mth news)"
    by blast
  have mn: "1 \<le> unat m" "unat m \<le> unat n"
    using assms(2) True by (simp_all add: word_less_nat_alt Suc_le_eq)
  have inputs: "consistency_inputs (mth olds) m n pf
      = climb2_inputs (zip (cdirs (unat m) (unat n)) tail) (seed, seed)"
    using st(1,2) by (simp add: consistency_inputs_def Let_def)
  show ?thesis
    using climb2_binding [of olds news tail seed] mn st(3,4) assms(3-6) inputs by simp
next
  case False
  with assms(1) have "m = n" "mth olds = mth news"
    by (auto simp: VerifyConsistency_def Let_def not_less split: if_splits)
  with mth_binding [of olds news] assms(3-6)
  have "olds = news \<or> collision_in (set (mth_inputs olds) \<union> set (mth_inputs news))" by simp
  with \<open>m = n\<close> assms(6) collision_mono show ?thesis by fastforce
qed

end
