(* ===== verification/Go_Strings.thy ===== *)
theory Go_Strings
  imports Encoding
begin

text \<open>
  The functions of Go's \<open>strings\<close> and \<open>bufio\<close> packages the program uses on input text:
  \<open>TrimSpace\<close>, \<open>Split\<close> on a comma, \<open>ToLower\<close> as far as it can produce ASCII, and the
  line scanner with its token limit.
\<close>

section \<open>TrimSpace\<close>

text \<open>The UTF-8 encodings of the runes for which \<open>unicode.IsSpace\<close> holds.\<close>

definition space_runes :: "string list" where
  "space_runes = map string_of
    ([[9], [10], [11], [12], [13], [32], [0xC2, 0x85], [0xC2, 0xA0], [0xE1, 0x9A, 0x80],
      [0xE2, 0x80, 0xA8], [0xE2, 0x80, 0xA9], [0xE2, 0x80, 0xAF], [0xE2, 0x81, 0x9F],
      [0xE3, 0x80, 0x80]]
     @ map (\<lambda>b. [0xE2, 0x80, b])
        [0x80, 0x81, 0x82, 0x83, 0x84, 0x85, 0x86, 0x87, 0x88, 0x89, 0x8A])"

function strip_front :: "string list \<Rightarrow> string \<Rightarrow> string" where
  "strip_front ws s =
    (case List.find (\<lambda>w. w \<noteq> [] \<and> take (length w) s = w) ws of
       None \<Rightarrow> s
     | Some w \<Rightarrow> strip_front ws (drop (length w) s))"
  by pat_completeness auto
termination
  by (relation "measure (\<lambda>(ws, s). length s)")
    (auto simp: find_Some_iff, metis diff_less length_greater_0_conv take_Nil)

declare strip_front.simps [simp del]

definition TrimSpace :: "string \<Rightarrow> string" where
  "TrimSpace s = rev (strip_front (map rev space_runes) (rev (strip_front space_runes s)))"

lemma strip_front_same:
  "\<forall>w \<in> set ws. w \<noteq> [] \<longrightarrow> take (length w) s \<noteq> w \<Longrightarrow> strip_front ws s = s"
proof -
  assume "\<forall>w \<in> set ws. w \<noteq> [] \<longrightarrow> take (length w) s \<noteq> w"
  then have "List.find (\<lambda>w. w \<noteq> [] \<and> take (length w) s = w) ws = None"
    by (auto simp: find_None_iff)
  then show ?thesis by (subst strip_front.simps) simp
qed

lemma strip_front_no_prefix:
  "w \<in> set ws \<Longrightarrow> w \<noteq> [] \<Longrightarrow> take (length w) (strip_front ws s) \<noteq> w"
proof (induction ws s rule: strip_front.induct)
  case (1 ws s)
  show ?case
  proof (cases "List.find (\<lambda>w. w \<noteq> [] \<and> take (length w) s = w) ws")
    case None
    then have "strip_front ws s = s" by (subst strip_front.simps) simp
    with None "1.prems" show ?thesis by (auto simp: find_None_iff)
  next
    case (Some v)
    with 1 show ?thesis by (simp add: strip_front.simps [of ws s])
  qed
qed

lemma strip_front_suffix: "\<exists>p. s = p @ strip_front ws s"
proof (induction ws s rule: strip_front.induct)
  case (1 ws s)
  show ?case
  proof (cases "List.find (\<lambda>w. w \<noteq> [] \<and> take (length w) s = w) ws")
    case None
    then show ?thesis by (simp add: strip_front.simps [of ws s])
  next
    case (Some v)
    with 1 obtain p where "drop (length v) s = p @ strip_front ws (drop (length v) s)" by blast
    then have "s = (take (length v) s @ p) @ strip_front ws (drop (length v) s)"
      by (metis append_assoc append_take_drop_id)
    moreover have "strip_front ws s = strip_front ws (drop (length v) s)"
      using Some by (subst strip_front.simps) simp
    ultimately show ?thesis by metis
  qed
qed

text \<open>A hexadecimal string has no space around it to trim.\<close>

definition is_hex :: "char \<Rightarrow> bool" where
  "is_hex c = (from_hex_char c \<noteq> None)"

lemma space_runes_not_hex:
  "w \<in> set space_runes \<Longrightarrow> w \<noteq> [] \<and> \<not> is_hex (hd w) \<and> \<not> is_hex (last w)"
proof -
  have "list_all (\<lambda>w. w \<noteq> [] \<and> \<not> is_hex (hd w) \<and> \<not> is_hex (last w)) space_runes"
    by code_simp
  then show "w \<in> set space_runes \<Longrightarrow> ?thesis" by (simp add: list_all_iff)
qed

lemma TrimSpace_hex_ends:
  assumes "s \<noteq> []" "is_hex (hd s)" "is_hex (last s)"
  shows "TrimSpace s = s"
proof -
  have first: "hd w = hd t" if "take (length w) t = w" "w \<noteq> []" for w t :: string
    using that by (metis hd_take length_greater_0_conv)
  have "take (length w) s \<noteq> w" if "w \<in> set space_runes" for w
    using space_runes_not_hex [OF that] assms(2) first by metis
  moreover have "take (length w) (rev s) \<noteq> w" if "w \<in> set (map rev space_runes)" for w
  proof
    assume eq: "take (length w) (rev s) = w"
    from that obtain v where v: "v \<in> set space_runes" "w = rev v" by auto
    then have "last v = hd w" "w \<noteq> []" using space_runes_not_hex by (auto simp: hd_rev)
    then have "last v = last s" using first [OF eq] assms(1) by (simp add: hd_rev)
    with space_runes_not_hex [OF v(1)] assms(3) show False by simp
  qed
  ultimately show ?thesis by (simp add: TrimSpace_def strip_front_same)
qed

lemma TrimSpace_hex: "\<forall>c \<in> set s. is_hex c \<Longrightarrow> TrimSpace s = s"
proof (cases "s = []")
  case True
  have "strip_front ws [] = []" for ws using strip_front_suffix [of "[]" ws] by simp
  with True show ?thesis by (simp add: TrimSpace_def)
next
  case False
  assume "\<forall>c \<in> set s. is_hex c"
  with False show ?thesis by (intro TrimSpace_hex_ends) auto
qed

lemma from_hex_char_hexEncode: "c \<in> set (hexEncode bs) \<Longrightarrow> is_hex c"
  by (induction bs) (auto simp: is_hex_def byte_nibbles)

section \<open>Split, prefixes and lower case\<close>

fun split_on :: "char \<Rightarrow> string \<Rightarrow> string list" where
  "split_on sep [] = [[]]"
| "split_on sep (c # cs) =
    (if c = sep then [] # split_on sep cs
     else case split_on sep cs of p # ps \<Rightarrow> (c # p) # ps | [] \<Rightarrow> [[c]])"

lemma split_on_not_Nil [simp]: "split_on sep s \<noteq> []"
  by (cases s) (auto split: list.split)

definition HasPrefix :: "string \<Rightarrow> string \<Rightarrow> bool" where
  "HasPrefix s p = (take (length p) s = p)"

text \<open>
  \<open>strings.ToLower\<close> where it can yield an ASCII letter: the ASCII capitals, and the two
  runes U+0130 and U+212A whose lower case is \<open>i\<close> and \<open>k\<close>.  Other runes are kept (their
  lower case is never ASCII, which is all that the program's comparisons can see).
\<close>

fun ToLower :: "string \<Rightarrow> string" where
  "ToLower [] = []"
| "ToLower (c # cs) =
    (if 65 \<le> (of_char c :: nat) \<and> (of_char c :: nat) \<le> 90
     then char_of ((of_char c :: nat) + 32) # ToLower cs
     else if take 2 (c # cs) = string_of [0xC4, 0xB0] then CHR ''i'' # ToLower (drop 1 cs)
     else if take 3 (c # cs) = string_of [0xE2, 0x84, 0xAA] then CHR ''k'' # ToLower (drop 2 cs)
     else c # ToLower cs)"

section \<open>The line scanner\<close>

text \<open>
  \<open>bufio.Scanner\<close> with \<open>ScanLines\<close>: lines without their newline and one trailing carriage
  return, an unterminated last line only if it is not empty.  A line that does not fit the
  buffer of \<open>limit\<close> bytes stops the scan with an error (the second component).
\<close>

definition drop_cr :: "string \<Rightarrow> string" where
  "drop_cr s = (if s \<noteq> [] \<and> last s = CHR 0x0D then butlast s else s)"

fun scan_raw :: "nat \<Rightarrow> string list \<Rightarrow> string list \<times> bool" where
  "scan_raw limit [] = ([], False)"
| "scan_raw limit (l # ls) =
    (if length l \<ge> limit then ([], True)
     else let (out, err) = scan_raw limit ls in (drop_cr l # out, err))"

definition scan_lines :: "nat \<Rightarrow> string \<Rightarrow> string list \<times> bool" where
  "scan_lines limit s =
    (let parts = split_on (CHR 0x0A) s
     in scan_raw limit (if last parts = [] then butlast parts else parts))"

end
