(* ===== verification/Merkle_Verifier.thy ===== *)
theory Merkle_Verifier
  imports Merkle_Consistency Go_Strings
begin

text \<open>
  File \<open>verifier.go\<close> of \<open>internal/merkle\<close>, its HTTP handler (\<open>internal/merkle/http\<close>) and
  the offline auditor \<open>cmd/merkle-verify\<close>.  The verifier reads the live tree three times,
  each under its own lock; the model takes the three trees it may see.  The result \<open>None\<close> is a panic
  of the proof generator, which is shown not to happen.
\<close>

section \<open>The report\<close>

record VerificationReport =
  OK :: bool
  Message :: string
  HistoricalRoot :: string
  HistoricalSize :: u64
  LiveRoot :: string
  LiveSize :: u64

definition VerifyHistoricalRoot ::
  "tree \<Rightarrow> tree \<Rightarrow> tree \<Rightarrow> bytes \<Rightarrow> u64 \<Rightarrow> (VerificationReport \<times> merkle_error option) option" where
  "VerifyHistoricalRoot t1 t2 t3 historicalRoot historicalSize =
    (let liveSize = Size t1; liveRoot = Root t2;
         report = \<lparr>OK = False, Message = [], HistoricalRoot = hexEncode historicalRoot,
           HistoricalSize = historicalSize, LiveRoot = hexEncode liveRoot, LiveSize = liveSize\<rparr>
     in if historicalSize > liveSize
        then Some (report\<lparr>Message := ''size regression: historical='' @ show_u64 historicalSize
                @ '' live='' @ show_u64 liveSize\<rparr>, Some (bare_err ErrSizeRegression))
        else case ProofForRange t3 historicalSize liveSize of
          Err e \<Rightarrow> Some (report\<lparr>Message := error_text e\<rparr>, Some e)
        | Panic \<Rightarrow> None
        | Ok pf \<Rightarrow>
           (case VerifyConsistency historicalRoot liveRoot historicalSize liveSize pf of
              Some e \<Rightarrow> Some (report\<lparr>Message := error_text e\<rparr>, Some e)
            | None \<Rightarrow> Some (report\<lparr>OK := True, Message := ''consistent''\<rparr>, None)))"

text \<open>The verifier on a tree that does not change while it runs.\<close>

abbreviation verify_quiet :: "tree \<Rightarrow> bytes \<Rightarrow> u64 \<Rightarrow> (VerificationReport \<times> merkle_error option) option" where
  "verify_quiet t \<equiv> VerifyHistoricalRoot t t t"

section \<open>The HTTP handler\<close>

record verify_request =
  historical_root :: string
  historical_size :: u64

text \<open>\<open>None\<close> is a body the JSON decoder rejects.\<close>

definition MerkleHandler ::
  "string \<Rightarrow> verify_request option \<Rightarrow> tree \<Rightarrow> tree \<Rightarrow> tree \<Rightarrow> VerificationReport http_reply" where
  "MerkleHandler reqMethod body t1 t2 t3 =
    (if reqMethod \<noteq> ''POST'' then ErrorReply 405 ''method_not_allowed''
     else case body of
       None \<Rightarrow> ErrorReply 400 ''invalid_json''
     | Some req \<Rightarrow>
        (case hexDecode (historical_root req) of
           None \<Rightarrow> ErrorReply 400 ''invalid_root''
         | Some root \<Rightarrow>
            (if length root \<noteq> HashSize then ErrorReply 400 ''invalid_root''
             else case VerifyHistoricalRoot t1 t2 t3 root (historical_size req) of
               None \<Rightarrow> Aborted
             | Some (report, verr) \<Rightarrow>
                Reply (case verr of None \<Rightarrow> 200 | Some e \<Rightarrow>
                  (if sentinel e = ErrSizeRegression then 422 else 422)) report)))"

section \<open>The offline auditor\<close>

text \<open>\<open>buildTreeFromFile\<close>: \<open>Inl line\<close> is a decoding error at that line.\<close>

fun build_lines :: "nat \<Rightarrow> tree \<Rightarrow> string list \<Rightarrow> nat + tree" where
  "build_lines line t [] = Inr t"
| "build_lines line t (l # ls) =
    (let raw = TrimSpace l
     in if raw = [] then build_lines (Suc line) t ls
        else case hexDecode raw of
          None \<Rightarrow> Inl (Suc line)
        | Some d \<Rightarrow> build_lines (Suc line) (snd (Append (WriteOk, SyncOk) t d)) ls)"

text \<open>\<open>None\<close>: the file cannot be opened; the scanner's own error comes after the loop.\<close>

definition buildTreeFromFile :: "string option \<Rightarrow> string + tree" where
  "buildTreeFromFile contents =
    (case contents of
       None \<Rightarrow> Inl ''open''
     | Some s \<Rightarrow>
        (let (lines, too_long) = scan_lines 1048576 s
         in case build_lines 0 New lines of
              Inl line \<Rightarrow> Inl (''line '' @ show_nat line)
            | Inr t \<Rightarrow> if too_long then Inl ''token too long'' else Inr t))"

text \<open>The exit status and, when the report is printed, the report.\<close>

definition merkle_verify_main ::
  "string \<Rightarrow> u64 \<Rightarrow> string \<Rightarrow> (string \<Rightarrow> string option) \<Rightarrow> nat \<times> VerificationReport option" where
  "merkle_verify_main historicalRoot historicalSize leavesFile fs =
    (if historicalRoot = [] \<or> leavesFile = [] then (2, None)
     else case hexDecode historicalRoot of
       None \<Rightarrow> (2, None)
     | Some rootBytes \<Rightarrow>
        (if length rootBytes \<noteq> HashSize then (2, None)
         else case buildTreeFromFile (fs leavesFile) of
           Inl e \<Rightarrow> (2, None)
         | Inr t \<Rightarrow>
            (case verify_quiet t rootBytes historicalSize of
               None \<Rightarrow> (2, None)
             | Some (report, verr) \<Rightarrow> (if verr = None then 0 else 1, Some report))))"

end
