(* ===== verification/Merkle_Claims.thy ===== *)
theory Merkle_Claims
  imports Merkle_Consistency
begin

text \<open>
  The properties of the Merkle tree package: what its proofs prove (completeness), what they
  cannot prove (binding, up to a named SHA-256 collision), that the two verifier loops compute
  the recursive definitions of RFC 6962, and that no query panics.
\<close>

lemma map_HashLeaf_eq:
  "map HashLeaf xs = map HashLeaf ys \<Longrightarrow>
    xs = ys \<or> collision_in (Cons leafPrefix ` (set xs \<union> set ys))"
proof (rule disjCI)
  assume eq: "map HashLeaf xs = map HashLeaf ys"
    and no: "\<not> collision_in (Cons leafPrefix ` (set xs \<union> set ys))"
  from eq have len: "length xs = length ys" by (metis length_map)
  show "xs = ys"
  proof (rule nth_equalityI [OF len])
    fix i assume i: "i < length xs"
    have "map HashLeaf xs ! i = map HashLeaf ys ! i" using eq by simp
    then have "sha256 (leafPrefix # xs ! i) = sha256 (leafPrefix # ys ! i)"
      using i len by (simp add: HashLeaf_def)
    moreover have "xs ! i \<in> set xs" "ys ! i \<in> set ys" using i len by simp_all
    ultimately show "xs ! i = ys ! i" using no unfolding collision_in_def by blast
  qed
qed

section \<open>Inclusion\<close>

text \<open>
  C16: every leaf has a proof under every size that contains it.  For each index below a size the
  tree has reached, \<open>ProofAt\<close> and \<open>RootAt\<close> return a proof and a root that
  \<open>VerifyInclusionHash\<close> accepts for the leaf hash stored there, and that \<open>VerifyInclusion\<close>
  accepts for the payload whose leaf hash it is.
\<close>

theorem inclusion_complete:
  assumes "wf_tree t" "idx < n" "unat n \<le> length (t_leaves t)"
  shows "\<exists>pf root. ProofAt t idx n = Ok pf \<and> RootAt t n = Ok root \<and>
    VerifyInclusionHash (t_leaves t ! unat idx) idx n pf root = None \<and>
    (\<forall>data. HashLeaf data = t_leaves t ! unat idx \<longrightarrow> VerifyInclusion data idx n pf root = None)"
proof -
  from ProofAt_verifies [OF assms] obtain pf where pf: "ProofAt t idx n = Ok pf"
    "verifyInclusionFromHash (t_leaves t ! unat idx) idx n pf (mth (take (unat n) (t_leaves t))) = None" .
  have "RootAt t n = Ok (mth (take (unat n) (t_leaves t)))"
    using assms(1,3) u64_le_len [of "t_leaves t" n] by (simp add: RootAt_def wf_tree_def not_less)
  moreover have "length (t_leaves t ! unat idx) = 32"
    using assms by (auto simp: wf_tree_def wf_leaves_def word_less_nat_alt)
  ultimately show ?thesis
    using pf by (auto simp: VerifyInclusionHash_def VerifyInclusion_def HashSize_def)
qed

lemma three_leaves_wf: "wf_tree (New\<lparr>t_leaves := map HashLeaf [[1], [2], [3]]\<rparr>)"
  by (simp add: wf_tree_def wf_leaves_def)

theorem inclusion_complete_witness:
  "\<exists>pf root. ProofAt (New\<lparr>t_leaves := map HashLeaf [[1], [2], [3]]\<rparr>) 1 3 = Ok pf \<and>
    VerifyInclusion [2] 1 3 pf root = None"
  using inclusion_complete [OF three_leaves_wf, of 1 3] by auto

text \<open>
  C7: an accepted inclusion proof binds the payload to its position.  If \<open>VerifyInclusion\<close>
  accepts \<open>data\<close> at \<open>idx\<close> against the root of the log of the payloads \<open>ds\<close>, then the
  payload at \<open>idx\<close> is \<open>data\<close>, or two different inputs among those that the log and the verifier
  hash have one SHA-256 digest.
\<close>

theorem inclusion_binding:
  assumes "VerifyInclusion data idx n pf (mth (map HashLeaf ds)) = None"
    and "length ds = unat n" "length ds < 2 ^ 63"
  shows "unat idx < length ds \<and>
    (ds ! unat idx = data \<or>
     collision_in (set (mth_inputs (map HashLeaf ds)) \<union>
       set (climb_inputs (zip (dirs (unat idx) (unat n)) pf) (HashLeaf data)) \<union>
       {leafPrefix # data, leafPrefix # ds ! unat idx}))"
proof -
  let ?ls = "map HashLeaf ds"
  have wf: "wf_leaves ?ls" using assms(3) by (auto simp: wf_leaves_def)
  from assms(1) have v: "idx < n" "\<forall>p \<in> set pf. length p = 32"
    "length pf = length (dirs (unat idx) (unat n))"
    "climb (zip (dirs (unat idx) (unat n)) pf) (HashLeaf data) = mth ?ls"
    by (simp_all add: VerifyInclusion_def verifyInclusion_iff)
  have lt: "unat idx < length ds" using v(1) assms(2) by (simp add: word_less_nat_alt)
  from climb_binding [of "unat idx" ?ls "HashLeaf data" pf] lt wf v assms(2)
  consider "HashLeaf data = HashLeaf (ds ! unat idx)"
    | (coll) "collision_in (set (mth_inputs ?ls) \<union>
        set (climb_inputs (zip (dirs (unat idx) (unat n)) pf) (HashLeaf data)))"
    by auto
  then show ?thesis
  proof cases
    case 1
    then have "data = ds ! unat idx \<or> collision_in {leafPrefix # data, leafPrefix # ds ! unat idx}"
      by (auto simp: HashLeaf_def collision_in_def)
    moreover have "collision_in {leafPrefix # data, leafPrefix # ds ! unat idx} \<Longrightarrow>
        collision_in (X \<union> {leafPrefix # data, leafPrefix # ds ! unat idx})" for X
      by (rule collision_mono) auto
    ultimately show ?thesis using lt by blast
  next
    case coll
    then show ?thesis using lt collision_mono [OF coll Un_upper1] by blast
  qed
qed

lemma dirs_0_2: "dirs 0 2 = [False]"
  by (simp add: dirs.simps pow2_below_def pow2_loop.simps Let_def)

theorem inclusion_binding_witness:
  "unat (0 :: u64) < length [[1 :: byte], [2]] \<and>
    ([[1 :: byte], [2]] ! unat (0 :: u64) = [1] \<or>
     collision_in (set (mth_inputs (map HashLeaf [[1], [2]])) \<union>
       set (climb_inputs (zip (dirs 0 2) [HashLeaf [2]]) (HashLeaf [1])) \<union>
       {leafPrefix # [1], leafPrefix # [1]}))"
proof -
  have "mth (map HashLeaf [[1], [2]]) = HashChildren (HashLeaf [1]) (HashLeaf [2])"
    by (simp add: mth.simps [of "[a, b]" for a b] mth_single pow2_below_def pow2_loop.simps Let_def)
  then have "VerifyInclusion [1] 0 2 [HashLeaf [2]] (mth (map HashLeaf [[1], [2]])) = None"
    by (simp add: VerifyInclusion_def verifyInclusion_iff dirs_0_2)
  from inclusion_binding [OF this] show ?thesis by simp
qed

text \<open>
  C22: the iterative verifier is the recursive one.  The loop of \<open>verifyInclusionFromHash\<close> over
  shifted node numbers accepts exactly when the index is inside the tree, root and proof nodes
  have 32 bytes, there is one proof node per level of the path to the leaf in the recursive tree
  (\<open>dirs\<close>), and hashing up along that path gives the root.
\<close>

theorem inclusion_verifier_recursive:
  "verifyInclusionFromHash h idx n pf root = None \<longleftrightarrow>
    idx < n \<and> length root = 32 \<and> (\<forall>p \<in> set pf. length p = 32) \<and>
    length pf = length (dirs (unat idx) (unat n)) \<and>
    climb (zip (dirs (unat idx) (unat n)) pf) h = root"
  by (rule verifyInclusion_iff)

theorem inclusion_verifier_recursive_witness:
  "verifyInclusionFromHash (HashLeaf [1]) 0 2 [HashLeaf [2]]
    (HashChildren (HashLeaf [1]) (HashLeaf [2])) = None"
  using inclusion_verifier_recursive [of "HashLeaf [1]" 0 2 "[HashLeaf [2]]"]
  by (simp add: dirs_0_2)

section \<open>Consistency\<close>

text \<open>
  C15: the tree can prove that every state extends every earlier one: for sizes \<open>m \<le> n\<close> up to the
  current size, \<open>ProofForRange\<close> returns a proof with which \<open>VerifyConsistency\<close> accepts the roots
  that \<open>RootAt\<close> gives at \<open>m\<close> and \<open>n\<close>.
\<close>

theorem consistency_complete:
  assumes "wf_tree t" "m \<le> n" "unat n \<le> length (t_leaves t)"
  shows "\<exists>pf old new. ProofForRange t m n = Ok pf \<and> RootAt t m = Ok old \<and> RootAt t n = Ok new \<and>
    VerifyConsistency old new m n pf = None"
proof -
  have "\<not> n > of_nat (length (t_leaves t))" "\<not> m > of_nat (length (t_leaves t))"
    using assms u64_le_len [of "t_leaves t"] by (auto simp: wf_tree_def not_less word_le_nat_alt)
  moreover obtain pf where "ProofForRange t m n = Ok pf"
    "VerifyConsistency (mth (take (unat m) (t_leaves t))) (mth (take (unat n) (t_leaves t))) m n pf
      = None"
    by (rule ProofForRange_verifies [OF assms])
  ultimately show ?thesis by (simp add: RootAt_def)
qed

theorem consistency_complete_witness:
  "\<exists>pf old new. ProofForRange (New\<lparr>t_leaves := map HashLeaf [[1], [2], [3]]\<rparr>) 2 3 = Ok pf \<and>
    VerifyConsistency old new 2 3 pf = None"
  using consistency_complete [OF three_leaves_wf, of 2 3] by auto

text \<open>
  C6: an accepted consistency proof means the old log is a prefix of the new one.  If
  \<open>VerifyConsistency\<close> accepts between the roots of the payload lists \<open>olds\<close> and \<open>news\<close>, then
  \<open>olds\<close> is the beginning of \<open>news\<close>, payload for payload, or two different inputs among those
  hashed by the two logs and the verifier have one digest.  (The old size must not be 0: the empty tree is a
  prefix of every tree and its root is not checked.)
\<close>

theorem consistency_binding:
  assumes "VerifyConsistency (mth (map HashLeaf olds)) (mth (map HashLeaf news)) m n pf = None"
    and "0 < m" "length olds = unat m" "length news = unat n"
    and "length olds < 2 ^ 63" "length news < 2 ^ 63"
  shows "(\<exists>added. news = olds @ added) \<or>
    collision_in (set (mth_inputs (map HashLeaf olds)) \<union> set (mth_inputs (map HashLeaf news)) \<union>
      set (consistency_inputs (mth (map HashLeaf olds)) m n pf) \<union>
      Cons leafPrefix ` (set olds \<union> set news))"
proof -
  have "wf_leaves (map HashLeaf olds)" "wf_leaves (map HashLeaf news)"
    using assms by (auto simp: wf_leaves_def)
  from VerifyConsistency_binding [OF assms(1,2) this] assms(3,4)
  consider (pre) "length olds \<le> length news"
      "map HashLeaf olds = take (length olds) (map HashLeaf news)"
    | (coll) "collision_in (set (mth_inputs (map HashLeaf olds)) \<union>
        set (mth_inputs (map HashLeaf news)) \<union>
        set (consistency_inputs (mth (map HashLeaf olds)) m n pf))"
    by auto
  then show ?thesis
  proof cases
    case pre
    have sub: "Cons leafPrefix ` (set olds \<union> set (take (length olds) news))
        \<subseteq> Cons leafPrefix ` (set olds \<union> set news)"
      by (auto dest: in_set_takeD)
    have "olds = take (length olds) news \<or> collision_in (Cons leafPrefix ` (set olds \<union> set news))"
      using map_HashLeaf_eq [of olds "take (length olds) news"] pre(2) collision_mono [OF _ sub]
      by (auto simp: take_map)
    then show ?thesis
    proof
      assume "olds = take (length olds) news"
      then have "news = olds @ drop (length olds) news" by (metis append_take_drop_id)
      then show ?thesis by blast
    next
      assume "collision_in (Cons leafPrefix ` (set olds \<union> set news))"
      from collision_mono [OF this Un_upper2] show ?thesis by (rule disjI2)
    qed
  next
    case coll
    from collision_mono [OF this Un_upper1] show ?thesis by (rule disjI2)
  qed
qed

text \<open>The equal-size case, where the proof must be empty and the roots equal.\<close>

theorem consistency_binding_witness:
  "(\<exists>added. [[7 :: byte], [8]] = [[7], [8]] @ added) \<or>
    collision_in (set (mth_inputs (map HashLeaf [[7], [8]])) \<union>
      set (mth_inputs (map HashLeaf [[7], [8]])) \<union>
      set (consistency_inputs (mth (map HashLeaf [[7], [8]])) 2 2 []) \<union>
      Cons leafPrefix ` (set [[7], [8]] \<union> set [[7], [8]]))"
  using consistency_binding [of "[[7], [8]]" "[[7], [8]]" 2 2 "[]"]
  by (simp add: VerifyConsistency_def)

text \<open>
  C21: the iterative consistency verifier is the recursive one.  For \<open>0 < m < n\<close>,
  \<open>VerifyConsistency\<close> accepts exactly when the proof is a seed (the old root itself when
  \<open>m\<close> is a power of two) and one node per level of the recursive tree between the old
  frontier and the root (\<open>cdirs\<close>), and hashing up with both accumulators gives the two roots.
\<close>

theorem consistency_verifier_recursive:
  assumes "0 < m" "m < n"
  shows "VerifyConsistency oldRoot newRoot m n pf = None \<longleftrightarrow>
    (\<exists>seed tail. pf = (if isPowerOfTwo m then tail else seed # tail) \<and>
      (isPowerOfTwo m \<longrightarrow> seed = oldRoot) \<and>
      length tail = length (cdirs (unat m) (unat n)) \<and>
      climb2 (zip (cdirs (unat m) (unat n)) tail) (seed, seed) = (oldRoot, newRoot))"
  by (rule VerifyConsistency_iff [OF assms])

lemma cdirs_1_2: "cdirs (Suc 0) 2 = [False]"
  by (simp add: cdirs.simps pow2_below_def pow2_loop.simps Let_def)

theorem consistency_verifier_recursive_witness:
  "VerifyConsistency (HashLeaf [1]) (HashChildren (HashLeaf [1]) (HashLeaf [2])) 1 2 [HashLeaf [2]]
    = None"
proof -
  have "isPowerOfTwo 1" using isPowerOfTwo_iff [of 1] by (auto intro: exI [of _ 0])
  then show ?thesis
    using consistency_verifier_recursive [of 1 2 "HashLeaf [1]"
        "HashChildren (HashLeaf [1]) (HashLeaf [2])" "[HashLeaf [2]]"]
    by (simp add: cdirs_1_2)
qed

section \<open>The root and the history\<close>

text \<open>
  The root commits to the whole log.  Two payload lists of one length with one root are the
  same list, or two different inputs that were hashed for them have one digest.
\<close>

lemma root_binding:
  assumes "mth (map HashLeaf xs) = mth (map HashLeaf ys)" "length xs = length ys"
    and "length xs < 2 ^ 63"
  shows "xs = ys \<or>
    collision_in (set (mth_inputs (map HashLeaf xs)) \<union> set (mth_inputs (map HashLeaf ys)) \<union>
      Cons leafPrefix ` (set xs \<union> set ys))"
proof -
  have wf: "wf_leaves (map HashLeaf xs)" "wf_leaves (map HashLeaf ys)"
    using assms(2,3) by (auto simp: wf_leaves_def)
  have len: "length (map HashLeaf xs) = length (map HashLeaf ys)" using assms(2) by simp
  from mth_binding [OF len wf assms(1)]
  show ?thesis
  proof
    assume "map HashLeaf xs = map HashLeaf ys"
    then have "xs = ys \<or> collision_in (Cons leafPrefix ` (set xs \<union> set ys))"
      by (rule map_HashLeaf_eq)
    then show ?thesis using collision_mono [OF _ Un_upper2] by blast
  next
    assume "collision_in (set (mth_inputs (map HashLeaf xs)) \<union> set (mth_inputs (map HashLeaf ys)))"
    from collision_mono [OF this Un_upper1] show ?thesis by (rule disjI2)
  qed
qed

text \<open>
  C11: history is immutable.  Whatever appends follow, with whatever results from the operating
  system, the leaf hashes already in the tree stay where they are, every earlier size keeps its
  root, and the consistency proof between the earlier size and the new one exists and verifies.
\<close>

theorem history_immutable:
  assumes "wf_tree t" "n \<le> Size t" "wf_tree t'" "t' = append_run Append t ops"
  shows "take (length (t_leaves t)) (t_leaves t') = t_leaves t \<and>
    RootAt t' n = RootAt t n \<and>
    (\<exists>pf old. RootAt t n = Ok old \<and> ProofForRange t' n (Size t') = Ok pf \<and>
      VerifyConsistency old (Root t') n (Size t') pf = None)"
proof -
  obtain new where new: "t_leaves t' = t_leaves t @ new"
    using tree_log.run_append_only [of t ops] assms(4) by auto
  have n: "unat n \<le> length (t_leaves t)"
    using assms(1,2) u64_le_len by (simp add: Size_def wf_tree_def)
  have sz: "unat (Size t') = length (t_leaves t')"
    using assms(3) by (simp add: Size_def wf_tree_def unat_len)
  have le: "n \<le> Size t'" using n sz new by (simp add: word_le_nat_alt)
  have at: "RootAt t n = Ok (mth (take (unat n) (t_leaves t)))"
    "RootAt t' n = Ok (mth (take (unat n) (t_leaves t)))"
    using assms(2) le n new by (simp_all add: RootAt_def Size_def not_less)
  obtain pf where "ProofForRange t' n (Size t') = Ok pf"
    "VerifyConsistency (mth (take (unat n) (t_leaves t'))) (mth (take (unat (Size t')) (t_leaves t')))
      n (Size t') pf = None"
    by (rule ProofForRange_verifies [OF assms(3) le]) (simp_all add: sz)
  then show ?thesis using at n new sz by (simp add: Root_def)
qed

theorem history_immutable_witness:
  "RootAt (append_run Append New [((WriteOk, SyncOk), [1]), ((WriteOk, SyncOk), [2])]) 0
    = RootAt New 0"
proof -
  have "wf_tree New" "0 \<le> Size New" by (simp_all add: wf_tree_def wf_leaves_def New_def)
  moreover have "wf_tree (append_run Append New [((WriteOk, SyncOk), [1]), ((WriteOk, SyncOk), [2])])"
    by (simp add: wf_tree_def wf_leaves_def Append_memory New_def)
  ultimately show ?thesis using history_immutable by blast
qed

text \<open>
  No query panics.  On a well-formed tree neither the guard of
  \<open>largestPowerOfTwoLessThan\<close> nor an index out of range is reached by \<open>Proof\<close>, \<open>ProofAt\<close>,
  \<open>RootAt\<close> or \<open>ProofForRange\<close>, for arguments of any value.
\<close>

lemma queries_never_panic:
  assumes "wf_tree t"
  shows "Proof t i \<noteq> Panic \<and> ProofAt t i n \<noteq> Panic \<and> RootAt t n \<noteq> Panic \<and>
    ProofForRange t m n \<noteq> Panic"
proof (intro conjI)
  show "RootAt t n \<noteq> Panic" by (simp add: RootAt_def)
  show *: "ProofAt t i n \<noteq> Panic" for n
  proof (cases "n > of_nat (length (t_leaves t)) \<or> i \<ge> n")
    case True
    then show ?thesis by (auto simp: ProofAt_def)
  next
    case False
    then have "i < n" "unat n \<le> length (t_leaves t)"
      using assms u64_le_len by (auto simp: wf_tree_def not_le not_less)
    then show ?thesis using ProofAt_verifies [OF assms, of i n] by force
  qed
  show "Proof t i \<noteq> Panic"
  proof (cases "i < of_nat (length (t_leaves t))")
    case True
    then have "unat i < length (t_leaves t)"
      using assms by (simp add: word_less_nat_alt wf_tree_def unat_len)
    from ProofAt_full [OF assms this] * show ?thesis by metis
  qed (simp add: Proof_def Let_def not_less)
  show "ProofForRange t m n \<noteq> Panic"
  proof (cases "n > of_nat (length (t_leaves t)) \<or> m > n")
    case True
    then show ?thesis by (auto simp: ProofForRange_def)
  next
    case False
    then have "m \<le> n" "unat n \<le> length (t_leaves t)"
      using assms u64_le_len by (auto simp: wf_tree_def not_le not_less)
    then show ?thesis using ProofForRange_verifies [OF assms, of m n] by force
  qed
qed

end
