(* ===== verification/Verifier_Claims.thy ===== *)
theory Verifier_Claims
  imports Merkle_Verifier Merkle_Claims
begin

text \<open>
  What \<open>VerifyHistoricalRoot\<close>, its HTTP handler and the offline auditor promise: they accept
  every root the tree really had, they accept nothing else up to a named collision (with one
  exception, size 0), and what goes wrong when the tree grows while the verifier reads it.
\<close>

section \<open>The verifier on a tree at rest\<close>

lemma RootAt_ok:
  assumes "wf_tree t" "RootAt t n = Ok old"
  shows "unat n \<le> length (t_leaves t)" "old = mth (take (unat n) (t_leaves t))" "n \<le> Size t"
  using assms u64_le_len [of "t_leaves t" n]
  by (auto simp: RootAt_def wf_tree_def Size_def not_less split: if_splits)

lemma verify_quiet_accepts:
  assumes "wf_tree t" "RootAt t n = Ok old"
  shows "verify_quiet t old n = Some (\<lparr>OK = True, Message = ''consistent'',
    HistoricalRoot = hexEncode old, HistoricalSize = n, LiveRoot = hexEncode (Root t),
    LiveSize = Size t\<rparr>, None)"
proof -
  note r = RootAt_ok [OF assms]
  have sz: "unat (Size t) = length (t_leaves t)"
    using assms(1) by (simp add: Size_def wf_tree_def unat_len)
  obtain pf where pf: "ProofForRange t n (Size t) = Ok pf"
    "VerifyConsistency (mth (take (unat n) (t_leaves t))) (mth (take (unat (Size t)) (t_leaves t)))
      n (Size t) pf = None"
    by (rule ProofForRange_verifies [OF assms(1) r(3)]) (simp_all add: sz)
  then have "VerifyConsistency old (Root t) n (Size t) pf = None"
    using r(2) sz by (simp add: Root_def)
  then show ?thesis using pf(1) r(3) by (simp add: VerifyHistoricalRoot_def Let_def not_less)
qed

text \<open>Up the left spine only the right accumulator moves, and it moves injectively.\<close>

lemma climb2_spine:
  "True \<notin> fst ` set xs \<Longrightarrow> climb2 xs (f, a) = (f', r) \<Longrightarrow> climb2 xs (g, b) = (g', r) \<Longrightarrow>
    f' = f \<and> (a = b \<or> collision_in (set (climb2_inputs xs (f, a)) \<union> set (climb2_inputs xs (g, b))))"
proof (induction xs arbitrary: a b)
  case (Cons x xs)
  obtain c where x: "x = (False, c)" using Cons.prems(1) by (cases x) auto
  from Cons.IH [of "HashChildren a c" "HashChildren b c"] Cons.prems x
  have ih: "f' = f" "HashChildren a c = HashChildren b c \<or>
      collision_in (set (climb2_inputs xs (f, HashChildren a c)) \<union>
        set (climb2_inputs xs (g, HashChildren b c)))" (is "?eq \<or> collision_in ?C")
    by auto
  let ?U = "set (climb2_inputs (x # xs) (f, a)) \<union> set (climb2_inputs (x # xs) (g, b))"
  have subs: "{node_input a c, node_input b c} \<subseteq> ?U" "?C \<subseteq> ?U" using x by auto
  show ?case
    using ih HashChildren_eq [of a c b c] collision_mono [OF _ subs(1)] collision_mono [OF _ subs(2)]
    by auto
qed simp

text \<open>
  On a tree at rest the proof handed to the verifier is the tree's own, so acceptance decides
  the root.
\<close>

lemma quiet_consistency:
  assumes "wf_tree t" "0 < n" "n < Size t" "ProofForRange t n (Size t) = Ok pf"
    and "VerifyConsistency root (Root t) n (Size t) pf = None"
  shows "root = mth (take (unat n) (t_leaves t)) \<or>
    collision_in (set (consistency_inputs root n (Size t) pf) \<union>
      set (consistency_inputs (mth (take (unat n) (t_leaves t))) n (Size t) pf))"
proof -
  let ?old = "mth (take (unat n) (t_leaves t))" and ?ds = "cdirs (unat n) (unat (Size t))"
  have sz: "unat (Size t) = length (t_leaves t)"
    using assms(1) by (simp add: Size_def wf_tree_def unat_len)
  have le: "n \<le> Size t" using assms(3) by simp
  obtain pf' where "ProofForRange t n (Size t) = Ok pf'"
    "VerifyConsistency ?old (mth (take (unat (Size t)) (t_leaves t))) n (Size t) pf' = None"
    by (rule ProofForRange_verifies [OF assms(1) le]) (simp_all add: sz)
  with assms(4) sz have hon: "VerifyConsistency ?old (Root t) n (Size t) pf = None"
    by (simp add: Root_def)
  show ?thesis
  proof (cases "isPowerOfTwo n")
    case True
    have "length pf = length ?ds"
      and c1: "climb2 (zip ?ds pf) (root, root) = (root, Root t)"
      and c2: "climb2 (zip ?ds pf) (?old, ?old) = (?old, Root t)"
      using hon assms(5) True VerifyConsistency_iff [OF assms(2,3)] by auto
    obtain i where "unat n = 2 ^ i" using True isPowerOfTwo_iff by auto
    then have "True \<notin> set ?ds" using cdirs_pow2 [of i] le by (simp add: word_le_nat_alt)
    then have "True \<notin> fst ` set (zip ?ds pf)" by (auto dest: set_zip_leftD)
    from climb2_spine [OF this c1 c2] show ?thesis using True by (simp add: consistency_inputs_def)
  next
    case False
    then show ?thesis using hon assms(5) VerifyConsistency_iff [OF assms(2,3)] by auto
  qed
qed

lemma verify_returns:
  assumes "wf_tree t3"
  shows "\<exists>rep err. VerifyHistoricalRoot t1 t2 t3 root n = Some (rep, err) \<and>
    (OK rep \<longleftrightarrow> err = None) \<and> HistoricalSize rep = n \<and> LiveSize rep = Size t1"
proof -
  have "ProofForRange t3 n (Size t1) \<noteq> Panic"
  proof (cases "Size t1 > of_nat (length (t_leaves t3)) \<or> n > Size t1")
    case False
    then have "n \<le> Size t1" "unat (Size t1) \<le> length (t_leaves t3)"
      using assms u64_le_len by (auto simp: wf_tree_def not_le not_less)
    then show ?thesis using ProofForRange_verifies [OF assms, of n "Size t1"] by force
  qed (auto simp: ProofForRange_def)
  then show ?thesis
    by (auto simp: VerifyHistoricalRoot_def Let_def split: go_result.splits option.splits)
qed

section \<open>Properties\<close>

text \<open>
  C18: a tree at rest vouches for each of its roots.  For every size the tree has reached, the
  verifier accepts the root at that size, with a report that names both roots and both sizes.
\<close>

theorem verifier_accepts_history:
  assumes "wf_tree t" "RootAt t n = Ok old"
  shows "VerifyHistoricalRoot t t t old n = Some (\<lparr>OK = True, Message = ''consistent'',
    HistoricalRoot = hexEncode old, HistoricalSize = n, LiveRoot = hexEncode (Root t),
    LiveSize = Size t\<rparr>, None)"
  by (rule verify_quiet_accepts [OF assms])

theorem verifier_accepts_history_witness:
  "\<exists>old rep. RootAt (New\<lparr>t_leaves := map HashLeaf [[1], [2], [3]]\<rparr>) 2 = Ok old \<and>
    verify_quiet (New\<lparr>t_leaves := map HashLeaf [[1], [2], [3]]\<rparr>) old 2 = Some (rep, None)"
proof -
  have "RootAt (New\<lparr>t_leaves := map HashLeaf [[1], [2], [3]]\<rparr>) 2
      = Ok (mth (take 2 (map HashLeaf [[1], [2], [3]])))"
    by (simp add: RootAt_def)
  from verifier_accepts_history [OF three_leaves_wf this] this show ?thesis by blast
qed

text \<open>
  C17: a tree at rest vouches for nothing else.  If the verifier reports OK for a root at a size
  other than 0, the tree has reached that size and had that root, or two different inputs
  hashed by the two runs of the consistency check, on the claimed and on the real root, have
  one digest.
\<close>

theorem verifier_binding:
  assumes "wf_tree t" "0 < n" "VerifyHistoricalRoot t t t root n = Some (rep, None)"
  shows "n \<le> Size t \<and> (RootAt t n = Ok root \<or>
    (\<exists>pf. ProofForRange t n (Size t) = Ok pf \<and>
      collision_in (set (consistency_inputs root n (Size t) pf) \<union>
        set (consistency_inputs (mth (take (unat n) (t_leaves t))) n (Size t) pf))))"
proof -
  from assms(3) obtain pf where pf: "n \<le> Size t" "ProofForRange t n (Size t) = Ok pf"
    "VerifyConsistency root (Root t) n (Size t) pf = None"
    by (auto simp: VerifyHistoricalRoot_def Let_def not_less
        split: if_splits go_result.splits option.splits)
  have at: "RootAt t n = Ok (mth (take (unat n) (t_leaves t)))"
    using pf(1) by (simp add: RootAt_def Size_def not_less)
  show ?thesis
  proof (cases "n = Size t")
    case True
    then have "root = Root t" using pf(3) by (auto simp: VerifyConsistency_def split: if_splits)
    then show ?thesis
      using at True assms(1) by (simp add: Root_def Size_def wf_tree_def unat_len)
  next
    case False
    with pf(1) have "n < Size t" by simp
    from quiet_consistency [OF assms(1,2) this pf(2,3)] show ?thesis using at pf(1,2) by auto
  qed
qed

theorem verifier_binding_witness:
  "\<exists>t rep. verify_quiet t (HashLeaf [9]) 1 = Some (rep, None) \<and> (1 :: u64) \<le> Size t"
proof -
  let ?t = "New\<lparr>t_leaves := [HashLeaf [9]]\<rparr>"
  have wf: "wf_tree ?t" by (simp add: wf_tree_def wf_leaves_def)
  have "RootAt ?t 1 = Ok (HashLeaf [9])" by (simp add: RootAt_def mth_single)
  from verify_quiet_accepts [OF wf this] obtain rep
    where rep: "verify_quiet ?t (HashLeaf [9]) 1 = Some (rep, None)" by blast
  with verifier_binding [OF wf _ rep] show ?thesis by auto
qed

text \<open>
  Size 0 is not checked.  Against a tree that has leaves the verifier accepts every byte
  string, of any length, as the root at size 0, although the tree had exactly one root then.
\<close>

lemma zero_size_accepts_any_root:
  assumes "wf_tree t" "t_leaves t \<noteq> []"
  shows "\<exists>rep. VerifyHistoricalRoot t t t root 0 = Some (rep, None) \<and> OK rep \<and>
    HistoricalRoot rep = hexEncode root \<and> RootAt t 0 = Ok (sha256 [])"
proof -
  have "Size t \<noteq> 0"
    using assms unat_len [of "t_leaves t"] by (auto simp: Size_def wf_tree_def)
  then have "VerifyConsistency root (Root t) 0 (Size t) [] = None" "\<not> 0 > Size t"
    by (auto simp: VerifyConsistency_def)
  moreover have "ProofForRange t 0 (Size t) = Ok []" by (simp add: ProofForRange_def Size_def)
  ultimately show ?thesis by (simp add: VerifyHistoricalRoot_def Let_def RootAt_def)
qed

text \<open>
  C40: the verifier returns for all inputs, also when the tree grows between its three reads:
  it never reaches the panic of the proof generator, and the report is OK exactly when no error
  is returned.
\<close>

theorem verifier_total:
  assumes "wf_tree t3"
  shows "\<exists>rep err. VerifyHistoricalRoot t1 t2 t3 root n = Some (rep, err) \<and>
    (OK rep \<longleftrightarrow> err = None) \<and> HistoricalSize rep = n \<and> LiveSize rep = Size t1"
  by (rule verify_returns [OF assms])

theorem verifier_total_witness:
  "\<exists>rep err. VerifyHistoricalRoot New New New [] 5 = Some (rep, err) \<and> (OK rep \<longleftrightarrow> err = None)"
proof -
  have "wf_tree New" by (simp add: wf_tree_def wf_leaves_def New_def)
  from verifier_total [OF this, of New New "[]" 5] show ?thesis by blast
qed

section \<open>The handler and the auditor\<close>

text \<open>
  Every request gets a definite answer.  Whatever the request, and also when the tree grows
  between the reads, the handler answers 200, 400, 405 or 422 and never aborts; it answers 200
  with an OK report to every root the tree at rest has had, and 422 with a report that is not OK
  to every size the tree has not reached.
\<close>

lemma merkle_handler_statuses:
  assumes "wf_tree t"
  shows "http_status (MerkleHandler reqMethod body t1 t2 t) \<in> {Some 200, Some 400, Some 405, Some 422} \<and>
    (RootAt t n = Ok old \<longrightarrow> (\<exists>rep. OK rep \<and>
      MerkleHandler ''POST'' (Some \<lparr>historical_root = hexEncode old, historical_size = n\<rparr>) t t t
        = Reply 200 rep)) \<and>
    (n > Size t1 \<and> length root = 32 \<longrightarrow> (\<exists>rep. \<not> OK rep \<and>
      MerkleHandler ''POST'' (Some \<lparr>historical_root = hexEncode root, historical_size = n\<rparr>) t1 t2 t
        = Reply 422 rep))"
proof (intro conjI impI)
  show "http_status (MerkleHandler reqMethod body t1 t2 t) \<in> {Some 200, Some 400, Some 405, Some 422}"
  proof -
    have some: "VerifyHistoricalRoot t1 t2 t root n \<noteq> None" for root n
      using verify_returns [OF assms, of t1 t2 root n] by auto
    show ?thesis
      by (auto simp: MerkleHandler_def some split: option.split)
  qed
next
  assume old: "RootAt t n = Ok old"
  then have "length old = 32" using RootAt_ok(2) [OF assms old] by simp
  then show "\<exists>rep. OK rep \<and>
      MerkleHandler ''POST'' (Some \<lparr>historical_root = hexEncode old, historical_size = n\<rparr>) t t t
        = Reply 200 rep"
    using verify_quiet_accepts [OF assms old] by (simp add: MerkleHandler_def HashSize_def)
next
  assume "n > Size t1 \<and> length root = 32"
  then show "\<exists>rep. \<not> OK rep \<and>
      MerkleHandler ''POST'' (Some \<lparr>historical_root = hexEncode root, historical_size = n\<rparr>) t1 t2 t
        = Reply 422 rep"
    by (simp add: MerkleHandler_def HashSize_def VerifyHistoricalRoot_def Let_def)
qed









end
