(* ===== verification/Sha256_Vectors.thy ===== *)
theory Sha256_Vectors
  imports Sha256 Encoding
begin

text \<open>
  Known answers for the model of SHA-256: the digest of the empty string (the first vector of
  the standard) and of one zero byte, evaluated in the kernel.  The second is the leaf hash of
  an empty payload.
\<close>

lemma sha256_empty:
  "hexEncode (sha256 []) =
    ''e3b0c44298fc1c149afbf4c8996fb92427ae41e4649b934ca495991b7852b855''"
  by code_simp

lemma sha256_zero_byte:
  "hexEncode (sha256 [0]) =
    ''6e340b9cffb37a989ca544e6bb780a2c78901d3fb33738768511a30617afa01d''"
  by code_simp

lemma empty_leaf_not_empty_tree: "sha256 [0] \<noteq> sha256 []"
proof
  assume "sha256 [0] = sha256 []"
  then have "hexEncode (sha256 [0]) = hexEncode (sha256 [])" by (rule arg_cong)
  then show False by (simp add: sha256_empty sha256_zero_byte)
qed

end
