(* ===== verification/Verifier_Race.thy ===== *)
theory Verifier_Race
  imports Verifier_Claims Sha256_Vectors
begin

text \<open>
  What happens to \<open>VerifyHistoricalRoot\<close> when the tree grows between its reads, with a concrete
  run whose two roots are evaluated in the kernel.
\<close>

text \<open>
  C37: an honest root is rejected when an append falls between the two reads of the verifier.
  \<open>VerifyHistoricalRoot\<close> reads the size and then the root under separate locks; asked about the
  current root and size, and with a leaf appended in between, it reports a root mismatch for a
  log that never changed its history.
\<close>

theorem verifier_race_false_alarm:
  assumes "Append io t d = (Ok i, t')" "Root t' \<noteq> Root t" "wf_tree t" "wf_tree t'"
  shows "\<exists>rep e. VerifyHistoricalRoot t t' t' (Root t) (Size t) = Some (rep, Some e) \<and>
    \<not> OK rep \<and> sentinel e = ErrRootMismatch \<and> RootAt t' (Size t) = Ok (Root t)"
proof -
  have new: "t_leaves t' = t_leaves t @ [HashLeaf d]" using tree_log.append_ok [OF assms(1)] by simp
  have sz: "unat (Size t) = length (t_leaves t)" "unat (Size t') = length (t_leaves t')"
    using assms(3,4) by (simp_all add: Size_def wf_tree_def unat_len)
  then have sz: "unat (Size t) = length (t_leaves t)" "Size t \<le> Size t'"
    using new by (simp_all add: word_le_nat_alt)
  have "RootAt t' (Size t) = Ok (Root t)"
    using sz new by (simp add: RootAt_def Root_def Size_def not_less)
  moreover have "ProofForRange t' (Size t) (Size t) = Ok []"
    using sz(2) by (simp add: ProofForRange_def Size_def not_less)
  ultimately show ?thesis
    using assms(2) by (auto simp: VerifyHistoricalRoot_def VerifyConsistency_def Let_def)
qed

theorem verifier_race_false_alarm_witness:
  "\<exists>rep e. VerifyHistoricalRoot New (snd (Append (WriteOk, SyncOk) New []))
      (snd (Append (WriteOk, SyncOk) New [])) (Root New) 0 = Some (rep, Some e) \<and>
    sentinel e = ErrRootMismatch"
proof -
  define t' where "t' = New\<lparr>t_leaves := [HashLeaf []]\<rparr>"
  have app: "Append (WriteOk, SyncOk) New [] = (Ok 0, t')"
    by (simp add: Append_memory New_def t'_def)
  have "Root t' = sha256 [0]" "Root New = sha256 []"
    by (simp_all add: Root_def t'_def mth_single HashLeaf_def leafPrefix_def New_def)
  then have "Root t' \<noteq> Root New" by (simp add: empty_leaf_not_empty_tree)
  moreover have "wf_tree New" "wf_tree t'" by (simp_all add: wf_tree_def wf_leaves_def New_def t'_def)
  moreover have "Size New = 0" by (simp add: Size_def New_def)
  ultimately show ?thesis using verifier_race_false_alarm [OF app] app by auto
qed

end
