(* ===== verification/Merkle_Persist.thy ===== *)
theory Merkle_Persist
  imports Merkle_Tree
begin

text \<open>
  File \<open>persistence.go\<close> of \<open>internal/merkle\<close>: opening a tree on a flat file of 32-byte leaf
  hashes, closing it, and what the file holds after appends that the operating system
  completes or fails.  \<open>persistLocked\<close> itself stands with the appends in \<open>Merkle_Tree\<close>.
\<close>

section \<open>Loading, opening, closing\<close>

text \<open>What the operating system answers to \<open>Stat\<close> and to the reads of one load.\<close>

datatype load_io = LoadOk | StatFail string | ReadFail nat string

fun read_leaves :: "nat \<Rightarrow> bytes \<Rightarrow> bytes list" where
  "read_leaves 0 content = []"
| "read_leaves (Suc n) content = copy32 (take HashSize content) # read_leaves n (drop HashSize content)"

definition loadLocked :: "load_io \<Rightarrow> tree \<Rightarrow> bytes \<Rightarrow> (merkle_error, tree) go_result" where
  "loadLocked io t content =
    (case io of
       StatFail msg \<Rightarrow> Err (MerkleErr ErrOther (''merkle: stat: '' @ msg))
     | _ \<Rightarrow>
        (if length content mod HashSize \<noteq> 0
         then Err (MerkleErr ErrOther (''merkle: backing file size '' @ show_nat (length content)
                @ '' not a multiple of '' @ show_nat HashSize))
         else let n = length content div HashSize
         in if n = 0 then Ok t
            else case io of
              ReadFail i msg \<Rightarrow>
                (if i < n then Err (MerkleErr ErrOther
                   (''merkle: read leaf '' @ show_nat i @ '': '' @ msg))
                 else Ok (t\<lparr>t_leaves := read_leaves n content\<rparr>))
            | _ \<Rightarrow> Ok (t\<lparr>t_leaves := read_leaves n content\<rparr>)))"

text \<open>
  \<open>open_err\<close> is the error of \<open>os.OpenFile\<close>, if any; \<open>content\<close> is what the file holds, empty
  when it was just created.
\<close>

definition Open :: "string option \<Rightarrow> load_io \<Rightarrow> string \<Rightarrow> bytes \<Rightarrow> (merkle_error, tree) go_result" where
  "Open open_err io path content =
    (case open_err of
       Some msg \<Rightarrow> Err (MerkleErr ErrOther (''merkle: open '' @ path @ '': '' @ msg))
     | None \<Rightarrow>
        (case loadLocked io \<lparr>t_leaves = [], t_file = Some content, t_closed = False\<rparr> content of
           Err e \<Rightarrow> Err e
         | Panic \<Rightarrow> Panic
         | Ok t \<Rightarrow> Ok t))"

definition Close :: "string option \<Rightarrow> tree \<Rightarrow> string option \<times> tree" where
  "Close close_err t =
    (case t_file t of
       None \<Rightarrow> (None, t)
     | Some content \<Rightarrow> (close_err, t\<lparr>t_file := None, t_closed := True\<rparr>))"

section \<open>The file mirrors the leaves\<close>

definition mirrored :: "tree \<Rightarrow> bool" where
  "mirrored t \<longleftrightarrow> wf_tree t \<and> \<not> t_closed t \<and> t_file t = Some (concat (t_leaves t))"

lemma length_concat_leaves: "wf_leaves ls \<Longrightarrow> length (concat ls) = 32 * length ls"
  by (induction ls) (auto simp: wf_leaves_def)

lemma read_leaves_concat: "\<forall>h \<in> set ls. length h = 32 \<Longrightarrow> read_leaves (length ls) (concat ls) = ls"
  by (induction ls) (auto simp: HashSize_def)

lemma Open_leaves:
  "wf_leaves ls \<Longrightarrow>
    Open None LoadOk p (concat ls) = Ok \<lparr>t_leaves = ls, t_file = Some (concat ls), t_closed = False\<rparr>"
  using read_leaves_concat [of ls]
  by (cases ls) (simp_all add: Open_def loadLocked_def length_concat_leaves HashSize_def
      wf_leaves_def Let_def)

lemma Append_mirrored:
  "mirrored t \<Longrightarrow> Suc (length (t_leaves t)) < 2 ^ 63 \<Longrightarrow>
    mirrored (snd (Append (WriteOk, SyncOk) t d))"
  by (simp add: mirrored_def Append_def persistLocked_def wf_tree_def wf_leaves_snoc Let_def)

section \<open>Properties\<close>

text \<open>
  C30: round trip of the leaf file.  After any sequence of appends that the operating system
  completes, closing the tree and opening its file again gives back exactly the same leaves,
  hence the same size, root and proofs; the file is 32 bytes per leaf.
\<close>

theorem reopen_roundtrip:
  assumes "mirrored t" "length (t_leaves t) + length ds < 2 ^ 63"
  shows "let t' = append_run Append t (map (Pair (WriteOk, SyncOk)) ds) in
    t_leaves t' = t_leaves t @ map HashLeaf ds \<and>
    (\<exists>content. t_file t' = Some content \<and> length content = 32 * length (t_leaves t') \<and>
      Open None LoadOk p content = Ok (t'))"
  using assms
proof (induction ds arbitrary: t)
  case Nil
  then have t: "wf_leaves (t_leaves t)" "t_file t = Some (concat (t_leaves t))" "\<not> t_closed t"
    by (simp_all add: mirrored_def wf_tree_def)
  then have "\<lparr>t_leaves = t_leaves t, t_file = Some (concat (t_leaves t)), t_closed = False\<rparr> = t"
    by simp
  with t show ?case by (simp add: Open_leaves length_concat_leaves)
next
  case (Cons d ds)
  let ?t = "snd (Append (WriteOk, SyncOk) t d)"
  have "t_leaves ?t = t_leaves t @ [HashLeaf d]"
    using Cons.prems(1) by (simp add: Append_def persistLocked_def mirrored_def Let_def)
  moreover have "mirrored ?t" using Cons.prems by (simp add: Append_mirrored)
  ultimately show ?case using Cons.IH [of ?t] Cons.prems(2) by (auto simp: Let_def)
qed

theorem reopen_roundtrip_witness:
  "let t' = append_run Append \<lparr>t_leaves = [], t_file = Some [], t_closed = False\<rparr>
      (map (Pair (WriteOk, SyncOk)) [[1], [2]])
   in t_leaves t' = [HashLeaf [1], HashLeaf [2]]"
proof -
  have "mirrored \<lparr>t_leaves = [], t_file = Some [], t_closed = False\<rparr>"
    by (simp add: mirrored_def wf_tree_def wf_leaves_def)
  from reopen_roundtrip [OF this, of "[[1], [2]]"] show ?thesis by (simp add: Let_def)
qed

text \<open>
  A closed tree refuses every append with \<open>ErrClosed\<close> and does not change, while closing a
  tree without a file is a no-op.
\<close>

lemma closed_refuses:
  "t_file t = Some c \<Longrightarrow>
    (let t' = snd (Close err t) in
      Append io t' d = (Err (bare_err ErrClosed), t') \<and> t_leaves t' = t_leaves t) \<and>
    Close err (t\<lparr>t_file := None\<rparr>) = (None, t\<lparr>t_file := None\<rparr>)"
  by (simp add: Close_def Append_def persistLocked_def)

text \<open>
  C36: a failed \<open>fsync\<close> breaks the promise of the file format.  The append returns an error and
  the tree in memory does not grow, but the leaf hash is in the file: the file no longer has 32
  bytes per leaf, and opening it again yields a tree with one leaf more than the running one,
  and the next successful append leaves the two with different leaves at the same index.
\<close>

theorem failed_sync_diverges:
  assumes "mirrored t" "Suc (Suc (length (t_leaves t))) < 2 ^ 63"
  shows "\<exists>e t1 c1 t2 c2.
    Append (WriteOk, SyncFail msg) t d = (Err e, t1) \<and> t_leaves t1 = t_leaves t \<and>
    t_file t1 = Some c1 \<and> length c1 = 32 * Suc (length (t_leaves t1)) \<and>
    (\<exists>r. Open None LoadOk p c1 = Ok r \<and> t_leaves r = t_leaves t @ [HashLeaf d]) \<and>
    Append (WriteOk, SyncOk) t1 d' = (Ok (of_nat (length (t_leaves t))), t2) \<and>
    t_leaves t2 = t_leaves t @ [HashLeaf d'] \<and> t_file t2 = Some c2 \<and>
    (\<exists>r. Open None LoadOk p c2 = Ok r \<and> t_leaves r = t_leaves t @ [HashLeaf d, HashLeaf d'])"
proof -
  let ?ls = "t_leaves t"
  have wf: "wf_leaves ?ls" "wf_leaves (?ls @ [HashLeaf d])" "wf_leaves (?ls @ [HashLeaf d, HashLeaf d'])"
    using assms wf_leaves_snoc [of ?ls "HashLeaf d"]
      wf_leaves_snoc [of "?ls @ [HashLeaf d]" "HashLeaf d'"]
    by (simp_all add: mirrored_def wf_tree_def)
  define t1 where "t1 = t\<lparr>t_file := Some (concat (?ls @ [HashLeaf d]))\<rparr>"
  define t2 where "t2 = t\<lparr>t_file := Some (concat (?ls @ [HashLeaf d, HashLeaf d'])),
    t_leaves := ?ls @ [HashLeaf d']\<rparr>"
  have "Append (WriteOk, SyncFail msg) t d
      = (Err (MerkleErr ErrOther (''merkle: fsync: '' @ msg)), t1)"
    using assms(1) by (simp add: Append_def persistLocked_def mirrored_def t1_def Let_def)
  moreover have "Append (WriteOk, SyncOk) t1 d' = (Ok (of_nat (length ?ls)), t2)"
    using assms(1) by (simp add: Append_def persistLocked_def mirrored_def t1_def t2_def Let_def)
  moreover have "length (concat (?ls @ [HashLeaf d])) = 32 * Suc (length ?ls)"
    using length_concat_leaves [OF wf(2)] by simp
  moreover have "\<exists>r. Open None LoadOk p (concat (?ls @ [HashLeaf d])) = Ok r \<and>
      t_leaves r = ?ls @ [HashLeaf d]"
    using Open_leaves [OF wf(2), of p] by simp
  moreover have "\<exists>r. Open None LoadOk p (concat (?ls @ [HashLeaf d, HashLeaf d'])) = Ok r \<and>
      t_leaves r = ?ls @ [HashLeaf d, HashLeaf d']"
    using Open_leaves [OF wf(3), of p] by simp
  moreover have "t_leaves t1 = ?ls" "t_file t1 = Some (concat (?ls @ [HashLeaf d]))"
    "t_leaves t2 = ?ls @ [HashLeaf d']"
    "t_file t2 = Some (concat (?ls @ [HashLeaf d, HashLeaf d']))"
    by (simp_all add: t1_def t2_def)
  ultimately show ?thesis by metis
qed

theorem failed_sync_diverges_witness:
  "\<exists>e t1. Append (WriteOk, SyncFail ''EIO'') (New\<lparr>t_file := Some []\<rparr>) [1] = (Err e, t1) \<and>
    t_leaves t1 = []"
proof -
  have m: "mirrored (New\<lparr>t_file := Some []\<rparr>)"
    by (simp add: mirrored_def New_def wf_tree_def wf_leaves_def)
  have "Suc (Suc (length (t_leaves (New\<lparr>t_file := Some []\<rparr>)))) < 2 ^ 63" by (simp add: New_def)
  from failed_sync_diverges [OF m this, of "''EIO''" "[1]" "''leaves''" "[2]"]
  show ?thesis by (auto simp: New_def)
qed

end
