(* ===== verification/Config.thy ===== *)
theory Config
  imports Go_Strings
begin

text \<open>
  Package \<open>internal/config\<close>: what the environment variables must hold for a configuration to load, and
  how a secret is kept out of logs.
  The environment is a function from names to values (empty when unset); \<open>time.ParseDuration\<close> is an
  argument.
\<close>

section \<open>Secrets\<close>

datatype Secret = Secret string

fun Secret_String :: "Secret \<Rightarrow> string" where
  "Secret_String (Secret s) = (if s = [] then [] else ''[REDACTED]'')"

definition Secret_GoString :: "Secret \<Rightarrow> string" where
  "Secret_GoString s = Secret_String s"

fun Secret_MarshalJSON :: "Secret \<Rightarrow> string" where
  "Secret_MarshalJSON (Secret s) =
    (if s = [] then [CHR 0x22, CHR 0x22] else CHR 0x22 # ''[REDACTED]'' @ [CHR 0x22])"

fun Reveal :: "Secret \<Rightarrow> string" where
  "Reveal (Secret s) = s"

section \<open>Loading\<close>

definition AnchorOff :: string where "AnchorOff = ''off''"
definition AnchorDryRun :: string where "AnchorDryRun = ''dry-run''"
definition AnchorCast :: string where "AnchorCast = ''cast''"

datatype log_level = LevelDebug | LevelInfo | LevelWarn | LevelError

record config =
  Addr :: string
  LogLevel :: log_level
  AnchorMode :: string
  AnchorInterval :: int
  AnchorContractAddress :: string
  AnchorRPCURL :: string
  AnchorPrivateKey :: Secret
  AnchorCastBinary :: string
  CORSOrigins :: "string list"

type_synonym environ = "string \<Rightarrow> string"

definition getEnv :: "environ \<Rightarrow> string \<Rightarrow> string \<Rightarrow> string" where
  "getEnv env key def_val = (if env key \<noteq> [] then env key else def_val)"

text \<open>\<open>nil\<close> and an empty list are both \<open>[]\<close>: the router treats them alike.\<close>

definition parseOrigins :: "string \<Rightarrow> string list" where
  "parseOrigins raw =
    (if raw = [] then [] else filter (\<lambda>t. t \<noteq> []) (map TrimSpace (split_on (CHR '','') raw)))"

definition parseLevel :: "string \<Rightarrow> log_level option" where
  "parseLevel s0 =
    (let s = ToLower s0
     in if s = ''debug'' then Some LevelDebug
        else if s = ''info'' then Some LevelInfo
        else if s = ''warn'' \<or> s = ''warning'' then Some LevelWarn
        else if s = ''error'' then Some LevelError
        else None)"

datatype config_error =
    BadLogLevel | BadDuration | NonPositiveInterval | MissingCastSettings | UnknownMode

text \<open>The three switches of \<open>Load\<close> that can fail, in its order.\<close>

definition load_level :: "environ \<Rightarrow> config \<Rightarrow> (config_error, config) go_result" where
  "load_level env cfg =
    (let raw = env ''KEYSERVER_LOG_LEVEL''
     in if raw = [] then Ok cfg
        else case parseLevel raw of None \<Rightarrow> Err BadLogLevel | Some lvl \<Rightarrow> Ok (cfg\<lparr>LogLevel := lvl\<rparr>))"

definition load_interval ::
  "(string \<Rightarrow> int option) \<Rightarrow> environ \<Rightarrow> config \<Rightarrow> (config_error, config) go_result" where
  "load_interval ParseDuration env cfg =
    (let raw = env ''ANCHOR_INTERVAL''
     in if raw = [] then Ok cfg
        else case ParseDuration raw of
          None \<Rightarrow> Err BadDuration
        | Some d \<Rightarrow> if d \<le> 0 then Err NonPositiveInterval else Ok (cfg\<lparr>AnchorInterval := d\<rparr>))"

definition load_anchor :: "environ \<Rightarrow> config \<Rightarrow> (config_error, config) go_result" where
  "load_anchor env cfg =
    (if AnchorMode cfg = AnchorOff \<or> AnchorMode cfg = AnchorDryRun then Ok cfg
     else if AnchorMode cfg = AnchorCast then
       (let cfg = cfg\<lparr>AnchorContractAddress := env ''ANCHOR_CONTRACT_ADDRESS'',
              AnchorRPCURL := env ''ANCHOR_RPC_URL'',
              AnchorPrivateKey := Secret (env ''ANCHOR_PRIVATE_KEY''),
              AnchorCastBinary := env ''ANCHOR_CAST_BINARY''\<rparr>
        in if AnchorContractAddress cfg = [] \<or> AnchorRPCURL cfg = [] \<or> AnchorPrivateKey cfg = Secret []
           then Err MissingCastSettings else Ok cfg)
     else Err UnknownMode)"

definition initial_config :: "environ \<Rightarrow> config" where
  "initial_config env = \<lparr>Addr = getEnv env ''KEYSERVER_ADDR'' '':8080'', LogLevel = LevelInfo,
     AnchorMode = ToLower (getEnv env ''ANCHOR_MODE'' AnchorOff),
     AnchorInterval = 15 * 60 * 1000000000, AnchorContractAddress = [], AnchorRPCURL = [],
     AnchorPrivateKey = Secret [], AnchorCastBinary = [],
     CORSOrigins = parseOrigins (env ''KEYSERVER_CORS_ORIGINS'')\<rparr>"

definition Load :: "(string \<Rightarrow> int option) \<Rightarrow> environ \<Rightarrow> (config_error, config) go_result" where
  "Load ParseDuration env =
    and_then (and_then (load_level env (initial_config env)) (load_interval ParseDuration env))
      (load_anchor env)"

section \<open>What loading guarantees\<close>

lemma load_level_Ok:
  "load_level env cfg = Ok cfg' \<Longrightarrow> \<exists>lvl. cfg' = cfg\<lparr>LogLevel := lvl\<rparr>"
  by (cases cfg) (auto simp: load_level_def Let_def split: if_splits option.splits)

lemma load_interval_Ok:
  "load_interval ParseDuration env cfg = Ok cfg' \<Longrightarrow> 0 < AnchorInterval cfg \<Longrightarrow>
    \<exists>d. 0 < d \<and> cfg' = cfg\<lparr>AnchorInterval := d\<rparr>"
  by (cases cfg) (auto simp: load_interval_def Let_def split: if_splits option.splits)

lemma load_anchor_Ok:
  "load_anchor env cfg = Ok cfg' \<Longrightarrow>
    AnchorMode cfg \<in> {AnchorOff, AnchorDryRun} \<and> cfg' = cfg \<or>
    AnchorMode cfg = AnchorCast \<and> env ''ANCHOR_CONTRACT_ADDRESS'' \<noteq> [] \<and> env ''ANCHOR_RPC_URL'' \<noteq> [] \<and>
      env ''ANCHOR_PRIVATE_KEY'' \<noteq> [] \<and>
      cfg' = cfg\<lparr>AnchorContractAddress := env ''ANCHOR_CONTRACT_ADDRESS'', AnchorRPCURL := env ''ANCHOR_RPC_URL'',
        AnchorPrivateKey := Secret (env ''ANCHOR_PRIVATE_KEY''),
        AnchorCastBinary := env ''ANCHOR_CAST_BINARY''\<rparr>"
  by (auto simp: load_anchor_def Let_def split: if_splits)

lemma Load_Ok:
  assumes "Load ParseDuration env = Ok cfg"
  obtains (plain) "AnchorMode cfg \<in> {AnchorOff, AnchorDryRun}" "0 < AnchorInterval cfg"
    "AnchorPrivateKey cfg = Secret []" "CORSOrigins cfg = parseOrigins (env ''KEYSERVER_CORS_ORIGINS'')"
  | (cast) "AnchorMode cfg = AnchorCast" "0 < AnchorInterval cfg"
    "env ''ANCHOR_CONTRACT_ADDRESS'' \<noteq> []" "env ''ANCHOR_RPC_URL'' \<noteq> []" "env ''ANCHOR_PRIVATE_KEY'' \<noteq> []"
    "AnchorContractAddress cfg = env ''ANCHOR_CONTRACT_ADDRESS''" "AnchorRPCURL cfg = env ''ANCHOR_RPC_URL''"
    "AnchorPrivateKey cfg = Secret (env ''ANCHOR_PRIVATE_KEY'')"
    "AnchorCastBinary cfg = env ''ANCHOR_CAST_BINARY''"
    "CORSOrigins cfg = parseOrigins (env ''KEYSERVER_CORS_ORIGINS'')"
proof -
  obtain cfg1 cfg2 where stages: "load_level env (initial_config env) = Ok cfg1"
      "load_interval ParseDuration env cfg1 = Ok cfg2" "load_anchor env cfg2 = Ok cfg"
    using assms by (auto simp: Load_def and_then_Ok)
  have "0 < AnchorInterval (initial_config env)" "AnchorPrivateKey (initial_config env) = Secret []"
    "CORSOrigins (initial_config env) = parseOrigins (env ''KEYSERVER_CORS_ORIGINS'')"
    by (simp_all add: initial_config_def)
  moreover from stages(1) obtain lvl where "cfg1 = (initial_config env)\<lparr>LogLevel := lvl\<rparr>" by (auto dest: load_level_Ok)
  moreover from calculation stages(2) obtain d where "0 < d" "cfg2 = cfg1\<lparr>AnchorInterval := d\<rparr>"
    by (auto dest: load_interval_Ok)
  ultimately show thesis using load_anchor_Ok [OF stages(3)] by (elim disjE) (auto intro: plain cast)
qed

end
