(* ===== verification/Json.thy ===== *)
theory Json
  imports Encoding
begin

text \<open>
  How \<open>encoding/json\<close> writes a string when \<open>SetEscapeHTML(false)\<close> is set: the two-character
  escapes, \<open>\u00XX\<close> for the other control characters, \<open>\u2028\<close> and \<open>\u2029\<close>, the
  replacement character for every byte that does not start a valid UTF-8 sequence, everything
  else unchanged.  \<open>json_unquote\<close> reads such a string back; it is the inverse on valid UTF-8.
\<close>

section \<open>UTF-8\<close>

abbreviation char_code :: "char \<Rightarrow> nat" where
  "char_code c \<equiv> of_char c"

definition between :: "nat \<Rightarrow> nat \<Rightarrow> char \<Rightarrow> bool" where
  "between lo hi c = (lo \<le> char_code c \<and> char_code c \<le> hi)"

text \<open>\<open>utf8.DecodeRune\<close>: the length of the sequence at the front, 0 where it is invalid.\<close>

definition utf8_len :: "string \<Rightarrow> nat" where
  "utf8_len s =
    (case s of [] \<Rightarrow> 0
     | c # cs \<Rightarrow>
        (if char_code c < 0x80 then 1
         else if between 0xC2 0xDF c \<and> 1 \<le> length cs \<and> between 0x80 0xBF (cs ! 0) then 2
         else if between 0xE0 0xEF c \<and> 2 \<le> length cs
           \<and> between (if char_code c = 0xE0 then 0xA0 else 0x80) (if char_code c = 0xED then 0x9F else 0xBF) (cs ! 0)
           \<and> between 0x80 0xBF (cs ! 1) then 3
         else if between 0xF0 0xF4 c \<and> 3 \<le> length cs
           \<and> between (if char_code c = 0xF0 then 0x90 else 0x80) (if char_code c = 0xF4 then 0x8F else 0xBF) (cs ! 0)
           \<and> between 0x80 0xBF (cs ! 1) \<and> between 0x80 0xBF (cs ! 2) then 4
         else 0))"

lemma utf8_len_le: "utf8_len s \<le> length s"
  by (cases s) (auto simp: utf8_len_def)

lemma utf8_len_ascii: "char_code c < 0x80 \<Longrightarrow> utf8_len (c # cs) = 1"
  by (simp add: utf8_len_def)

function valid_utf8 :: "string \<Rightarrow> bool" where
  "valid_utf8 s =
    (if s = [] then True
     else if utf8_len s = 0 then False else valid_utf8 (drop (utf8_len s) s))"
  by pat_completeness auto
termination
  by (relation "measure length") auto

declare valid_utf8.simps [simp del]

lemma valid_utf8_Nil [simp]: "valid_utf8 []"
  by (simp add: valid_utf8.simps)

text \<open>Every byte of a multi-byte sequence is at least \<open>0x80\<close>.\<close>

lemma utf8_bytes:
  assumes "0x80 \<le> char_code c"
  shows "utf8_len (c # cs) \<le> 4"
    "2 \<le> utf8_len (c # cs) \<Longrightarrow> 0x80 \<le> char_code (cs ! 0)"
    "3 \<le> utf8_len (c # cs) \<Longrightarrow> 0x80 \<le> char_code (cs ! 1)"
    "4 \<le> utf8_len (c # cs) \<Longrightarrow> 0x80 \<le> char_code (cs ! 2)"
proof -
  have b0: "between lo hi d \<Longrightarrow> 0x80 \<le> lo \<Longrightarrow> 0x80 \<le> char_code d" for lo hi d
    by (simp add: between_def)
  show "utf8_len (c # cs) \<le> 4" by (simp add: utf8_len_def)
  show "2 \<le> utf8_len (c # cs) \<Longrightarrow> 0x80 \<le> char_code (cs ! 0)"
    using assms by (auto simp: utf8_len_def dest!: b0 split: if_split_asm)
  show "3 \<le> utf8_len (c # cs) \<Longrightarrow> 0x80 \<le> char_code (cs ! 1)"
    using assms by (auto simp: utf8_len_def dest!: b0 split: if_split_asm)
  show "4 \<le> utf8_len (c # cs) \<Longrightarrow> 0x80 \<le> char_code (cs ! 2)"
    using assms by (auto simp: utf8_len_def dest!: b0 split: if_split_asm)
qed

lemma utf8_tail_high:
  assumes "0x80 \<le> char_code c" "d \<in> set (take (utf8_len (c # cs)) (c # cs))"
  shows "0x80 \<le> char_code d"
proof -
  from assms(2) obtain i where i: "i < utf8_len (c # cs)" "d = (c # cs) ! i"
    by (auto simp: in_set_conv_nth)
  with utf8_bytes(1) [OF assms(1), of cs] consider "i = 0" | "i = 1" | "i = 2" | "i = 3" by linarith
  then show ?thesis
    by cases (use i assms(1) utf8_bytes [OF assms(1), of cs] in
        \<open>simp_all add: numeral_eq_Suc\<close>)
qed

lemma valid_utf8_ascii: "\<forall>c \<in> set s. char_code c < 0x80 \<Longrightarrow> valid_utf8 s"
proof (induction s)
  case (Cons c s)
  then show ?case by (subst valid_utf8.simps) (simp add: utf8_len_ascii)
qed simp

section \<open>Writing a string\<close>

definition escape_ascii :: "char \<Rightarrow> string" where
  "escape_ascii c =
    (let b = char_code c
     in if b = 0x22 then [CHR 0x5C, CHR 0x22]
        else if b = 0x5C then [CHR 0x5C, CHR 0x5C]
        else if 0x20 \<le> b then [c]
        else if b = 0x08 then CHR 0x5C # ''b''
        else if b = 0x0C then CHR 0x5C # ''f''
        else if b = 0x0A then CHR 0x5C # ''n''
        else if b = 0x0D then CHR 0x5C # ''r''
        else if b = 0x09 then CHR 0x5C # ''t''
        else CHR 0x5C # ''u00'' @ [digit_char (b div 16), digit_char (b mod 16)])"

definition line_sep :: string where "line_sep = map char_of [0xE2 :: nat, 0x80, 0xA8]"
definition para_sep :: string where "para_sep = map char_of [0xE2 :: nat, 0x80, 0xA9]"

definition escape_rune :: "string \<Rightarrow> string" where
  "escape_rune r =
    (if r = line_sep then CHR 0x5C # ''u2028''
     else if r = para_sep then CHR 0x5C # ''u2029'' else r)"

function json_escape :: "string \<Rightarrow> string" where
  "json_escape [] = []"
| "json_escape (c # cs) =
    (if char_code c < 0x80 then escape_ascii c @ json_escape cs
     else let n = utf8_len (c # cs)
     in if n = 0 then CHR 0x5C # ''ufffd'' @ json_escape cs
        else escape_rune (take n (c # cs)) @ json_escape (drop n (c # cs)))"
  by pat_completeness auto
termination
  by (relation "measure length") (auto simp: Suc_le_eq)

definition json_string :: "string \<Rightarrow> string" where
  "json_string s = CHR 0x22 # json_escape s @ [CHR 0x22]"

section \<open>Reading it back\<close>

text \<open>What follows a backslash: the bytes it stands for and the rest.\<close>

definition unescape1 :: "string \<Rightarrow> (string \<times> string) option" where
  "unescape1 s =
    (case s of [] \<Rightarrow> None
     | c # cs \<Rightarrow>
        (if c = CHR 0x22 \<or> c = CHR 0x5C then Some ([c], cs)
         else if c = CHR ''b'' then Some ([CHR 0x08], cs)
         else if c = CHR ''f'' then Some ([CHR 0x0C], cs)
         else if c = CHR ''n'' then Some ([CHR 0x0A], cs)
         else if c = CHR ''r'' then Some ([CHR 0x0D], cs)
         else if c = CHR ''t'' then Some ([CHR 0x09], cs)
         else if take 4 cs = ''2028'' then Some (line_sep, drop 4 cs)
         else if take 4 cs = ''2029'' then Some (para_sep, drop 4 cs)
         else case hexDecode (take 2 (drop 2 cs)) of
           Some [b] \<Rightarrow> Some ([char_of (unat b)], drop 4 cs)
         | _ \<Rightarrow> None))"

lemma unescape1_shorter: "unescape1 s = Some (u, r) \<Longrightarrow> length r < length s"
  by (auto simp: unescape1_def split: list.splits if_splits option.splits)

function json_unquote :: "string \<Rightarrow> (string \<times> string) option" where
  "json_unquote [] = None"
| "json_unquote (c # cs) =
    (if c = CHR 0x22 then Some ([], cs)
     else if c = CHR 0x5C then
       (case unescape1 cs of None \<Rightarrow> None
        | Some (u, r) \<Rightarrow> map_option (\<lambda>(s, q). (u @ s, q)) (json_unquote r))
     else map_option (\<lambda>(s, q). (c # s, q)) (json_unquote cs))"
  by pat_completeness auto
termination
  by (relation "measure length") (auto dest: unescape1_shorter)

lemma json_unquote_plain:
  "\<forall>c \<in> set u. c \<noteq> CHR 0x22 \<and> c \<noteq> CHR 0x5C \<Longrightarrow> json_unquote r = Some (s, q) \<Longrightarrow>
    json_unquote (u @ r) = Some (u @ s, q)"
  by (induction u) auto

lemma unescape1_u00:
  assumes "b < 256"
  shows "unescape1 (''u00'' @ digit_char (b div 16) # digit_char (b mod 16) # r) = Some ([char_of b], r)"
proof -
  have "unat (of_nat b :: byte) = b" using assms by (simp add: unat_of_nat take_bit_nat_eq_self)
  moreover have "b div 16 < 16" using assms by simp
  moreover have "16 * (b div 16) + b mod 16 = b" by simp
  ultimately have "hexDecode [digit_char (b div 16), digit_char (b mod 16)] = Some [of_nat b]"
    "unat (of_nat b :: byte) = b"
    by (simp_all del: of_nat_add of_nat_mult)
  moreover have "take 2 (drop 2 (''00'' @ digit_char (b div 16) # digit_char (b mod 16) # r))
      = [digit_char (b div 16), digit_char (b mod 16)]"
    "drop 4 (''00'' @ digit_char (b div 16) # digit_char (b mod 16) # r) = r"
    "take 4 (''00'' @ digit_char (b div 16) # digit_char (b mod 16) # r)
      = CHR ''0'' # CHR ''0'' # digit_char (b div 16) # [digit_char (b mod 16)]"
    by (simp_all only: append.simps take_Cons_numeral drop_Cons_numeral take_Cons' drop_Cons')
      simp_all
  ultimately show ?thesis by (simp add: unescape1_def del: hexDecode.simps)
qed

lemma code_inj: "char_code c = char_code d \<Longrightarrow> c = d"
  by (rule injD [OF inj_of_char])

lemma unquote_escape_ascii:
  assumes "char_code c < 0x80" "json_unquote r = Some (s, q)"
  shows "json_unquote (escape_ascii c @ r) = Some (c # s, q)"
proof -
  consider "char_code c \<in> {0x22, 0x5C, 0x08, 0x0C, 0x0A, 0x0D, 0x09}"
    | (plain) "32 \<le> char_code c" "char_code c \<notin> {0x22, 0x5C}"
    | (hex) "char_code c < 32" "char_code c \<notin> {0x08, 0x0C, 0x0A, 0x0D, 0x09}"
    by fastforce
  then show ?thesis
  proof cases
    case 1
    then have "c \<in> {CHR 0x22, CHR 0x5C, CHR 0x08, CHR 0x0C, CHR 0x0A, CHR 0x0D, CHR 0x09}"
      using code_inj [of c "CHR 0x22"] code_inj [of c "CHR 0x5C"] code_inj [of c "CHR 0x08"]
        code_inj [of c "CHR 0x0C"] code_inj [of c "CHR 0x0A"] code_inj [of c "CHR 0x0D"]
        code_inj [of c "CHR 0x09"]
      by auto
    then show ?thesis
      using assms(2) by (auto simp: escape_ascii_def unescape1_def)
  next
    case plain
    then have "escape_ascii c = [c]" "c \<noteq> CHR 0x22" "c \<noteq> CHR 0x5C"
      by (auto simp: escape_ascii_def Let_def)
    with assms(2) show ?thesis by simp
  next
    case hex
    then have "escape_ascii c @ r =
        CHR 0x5C # ''u00'' @ digit_char (char_code c div 16) # digit_char (char_code c mod 16) # r"
      by (auto simp: escape_ascii_def Let_def)
    moreover have "char_code c < 256" using hex by simp
    ultimately show ?thesis using unescape1_u00 [of "char_code c" r] assms(2) by simp
  qed
qed

text \<open>A string written and read back is the same string, whatever follows it.\<close>

lemma json_roundtrip:
  "valid_utf8 s \<Longrightarrow> json_unquote (json_escape s @ CHR 0x22 # r) = Some (s, r)"
proof (induction s rule: json_escape.induct)
  case (2 c cs)
  show ?case
  proof (cases "char_code c < 0x80")
    case True
    with "2.prems" have "valid_utf8 cs" by (subst (asm) valid_utf8.simps) (simp add: utf8_len_ascii)
    with 2 True show ?thesis by (simp add: unquote_escape_ascii)
  next
    case False
    let ?n = "utf8_len (c # cs)" and ?u = "take (utf8_len (c # cs)) (c # cs)"
    have n: "?n \<noteq> 0" "valid_utf8 (drop ?n (c # cs))"
      using "2.prems" by (auto simp only: valid_utf8.simps [of "c # cs"] split: if_splits)
    then have ih: "json_unquote (json_escape (drop ?n (c # cs)) @ CHR 0x22 # r)
        = Some (drop ?n (c # cs), r)"
      using 2(3) False by simp
    have "d \<noteq> CHR 0x22 \<and> d \<noteq> CHR 0x5C" if "d \<in> set ?u" for d
      using utf8_tail_high [OF _ that] False by auto
    then have "json_unquote (?u @ json_escape (drop ?n (c # cs)) @ CHR 0x22 # r)
        = Some (?u @ drop ?n (c # cs), r)"
      using json_unquote_plain [OF _ ih, of ?u] by blast
    moreover have "json_unquote (escape_rune ?u @ rest) = Some (?u @ s, q)"
      if "json_unquote rest = Some (s, q)" "json_unquote (?u @ rest) = Some (?u @ s, q)" for rest s q
      using that by (simp add: escape_rune_def unescape1_def)
    ultimately have "json_unquote (escape_rune ?u @ json_escape (drop ?n (c # cs)) @ CHR 0x22 # r)
        = Some (c # cs, r)"
      using ih by (metis append_take_drop_id)
    then show ?thesis using False n(1) by (simp add: Let_def)
  qed
qed simp

lemma json_string_inj:
  assumes "json_string s @ x = json_string t @ y" "valid_utf8 s" "valid_utf8 t"
  shows "s = t \<and> x = y"
proof -
  have "json_escape s @ CHR 0x22 # x = json_escape t @ CHR 0x22 # y"
    using assms(1) by (simp add: json_string_def)
  then have "Some (s, x) = Some (t, y)" using json_roundtrip assms(2,3) by metis
  then show ?thesis by simp
qed

end
