(* ===== verification/Action.thy ===== *)
theory Action
  imports Json
begin

text \<open>
  Packages \<open>internal/action\<close> and \<open>internal/signing\<close>: the canonical message of an agent action,
  and its Ed25519 signature.  The two primitives of \<open>crypto/ed25519\<close> are arguments; what the code
  relies on (a signature verifies under its key pair, a valid signature has 64 bytes) is a
  named hypothesis where a theorem needs it.
\<close>

section \<open>The action\<close>

record action =
  SchemaVersion :: i64
  AgentID :: string
  ActionType :: string
  Target :: string
  TimestampMs :: i64
  Nonce :: string

definition schema_version_const :: i64 where "schema_version_const = 1"
definition NonceHexLen :: nat where "NonceHexLen = 32"
definition MaxSkewMillis :: i64 where "MaxSkewMillis = 30000"
definition NonceWindowMs :: i64 where "NonceWindowMs = 600000"

datatype action_error = ErrSchemaVersion i64 | ErrEmptyField | ErrNonceShape

definition Validate :: "action \<Rightarrow> action_error option" where
  "Validate a =
    (if SchemaVersion a \<noteq> schema_version_const then Some (ErrSchemaVersion (SchemaVersion a))
     else if AgentID a = [] \<or> ActionType a = [] \<or> Target a = [] then Some ErrEmptyField
     else if length (Nonce a) \<noteq> NonceHexLen then Some ErrNonceShape
     else case hexDecode (Nonce a) of
       None \<Rightarrow> Some ErrNonceShape
     | Some _ \<Rightarrow>
        (if list_ex (between 0x41 0x46) (Nonce a) then Some ErrNonceShape else None))"

text \<open>A JSON object from a Go map: \<open>encoding/json\<close> sorts the keys.\<close>

fun comma_join :: "string list \<Rightarrow> string" where
  "comma_join [] = []"
| "comma_join [s] = s"
| "comma_join (s # t # ss) = s @ '','' @ comma_join (t # ss)"

definition json_object :: "(string \<times> string) list \<Rightarrow> string" where
  "json_object m =
    ''{'' @ comma_join (map (\<lambda>(k, v). json_string k @ '':'' @ v) (sort_key fst m)) @ ''}''"

definition action_fields :: "action \<Rightarrow> (string \<times> string) list" where
  "action_fields a =
    [(''schema_version'', show_i64 (SchemaVersion a)),
     (''agent_id'', json_string (AgentID a)),
     (''action_type'', json_string (ActionType a)),
     (''target'', json_string (Target a)),
     (''timestamp'', show_i64 (TimestampMs a)),
     (''nonce'', json_string (Nonce a))]"

definition Canonical :: "action \<Rightarrow> (action_error, string) go_result" where
  "Canonical a =
    (case Validate a of
       Some e \<Rightarrow> Err e
     | None \<Rightarrow>
        (let out = json_object (action_fields a) @ [CHR 0x0A]
         in if out \<noteq> [] \<and> last out = CHR 0x0A then Ok (butlast out) else Ok out))"

section \<open>Signatures\<close>

type_synonym ed_sign = "bytes \<Rightarrow> bytes \<Rightarrow> bytes"
type_synonym ed_verify = "bytes \<Rightarrow> bytes \<Rightarrow> bytes \<Rightarrow> bool"

definition PublicKeySize :: nat where "PublicKeySize = 32"
definition PrivateKeySize :: nat where "PrivateKeySize = 64"
definition SignatureSize :: nat where "SignatureSize = 64"

datatype signing_error = ErrInvalidSignature | ErrInvalidKeyLength nat | ErrAction action_error

definition Sign :: "ed_sign \<Rightarrow> action \<Rightarrow> bytes \<Rightarrow> (signing_error, bytes) go_result" where
  "Sign esign a priv =
    (if length priv \<noteq> PrivateKeySize then Err (ErrInvalidKeyLength (length priv))
     else case Canonical a of
       Err e \<Rightarrow> Err (ErrAction e)
     | Panic \<Rightarrow> Panic
     | Ok msg \<Rightarrow> Ok (esign priv (bytes_of msg)))"

definition Verify :: "ed_verify \<Rightarrow> action \<Rightarrow> bytes \<Rightarrow> bytes \<Rightarrow> signing_error option" where
  "Verify vfy a sig pub =
    (if length pub \<noteq> PublicKeySize then Some (ErrInvalidKeyLength (length pub))
     else case Canonical a of
       Err e \<Rightarrow> Some (ErrAction e)
     | Panic \<Rightarrow> None
     | Ok msg \<Rightarrow> (if vfy pub (bytes_of msg) sig then None else Some ErrInvalidSignature))"

section \<open>The shape of a valid action\<close>

definition lower_hex :: "char \<Rightarrow> bool" where
  "lower_hex c = (between 0x30 0x39 c \<or> between 0x61 0x66 c)"

lemma from_hex_char_lower: "from_hex_char c \<noteq> None \<and> \<not> between 0x41 0x46 c \<longleftrightarrow> lower_hex c"
  by (auto simp: from_hex_char_def Let_def between_def lower_hex_def)

lemma Validate_None_iff:
  "Validate a = None \<longleftrightarrow>
    SchemaVersion a = 1 \<and> AgentID a \<noteq> [] \<and> ActionType a \<noteq> [] \<and> Target a \<noteq> [] \<and>
    length (Nonce a) = 32 \<and> (\<forall>c \<in> set (Nonce a). lower_hex c)"
proof (cases "length (Nonce a) = 32")
  case True
  then have "(\<exists>b. hexDecode (Nonce a) = Some b) \<and> \<not> list_ex (between 0x41 0x46) (Nonce a)
      \<longleftrightarrow> (\<forall>c \<in> set (Nonce a). lower_hex c)"
    by (auto simp: hexDecode_iff list_ex_iff from_hex_char_lower [symmetric])
  with True show ?thesis
    by (auto simp: Validate_def schema_version_const_def NonceHexLen_def split: option.splits)
qed (auto simp: Validate_def NonceHexLen_def)

section \<open>The canonical encoding\<close>

lemma sorted_fields:
  "map (\<lambda>(k, v). json_string k @ '':'' @ v) (sort_key fst (action_fields a)) =
    [''\"action_type\":'' @ json_string (ActionType a),
     ''\"agent_id\":'' @ json_string (AgentID a),
     ''\"nonce\":'' @ json_string (Nonce a),
     ''\"schema_version\":'' @ show_i64 (SchemaVersion a),
     ''\"target\":'' @ json_string (Target a),
     ''\"timestamp\":'' @ show_i64 (TimestampMs a)]"
proof -
  have keys: "json_string ''action_type'' = ''\"action_type\"''"
    "json_string ''agent_id'' = ''\"agent_id\"''" "json_string ''nonce'' = ''\"nonce\"''"
    "json_string ''schema_version'' = ''\"schema_version\"''"
    "json_string ''target'' = ''\"target\"''" "json_string ''timestamp'' = ''\"timestamp\"''"
    by code_simp+
  have ord: "insort_key fst (''nonce'', n) [] = [(''nonce'', n)]"
    "insort_key fst (''timestamp'', t) [(''nonce'', n)] = [(''nonce'', n), (''timestamp'', t)]"
    "insort_key fst (''target'', g) [(''nonce'', n), (''timestamp'', t)] =
      [(''nonce'', n), (''target'', g), (''timestamp'', t)]"
    "insort_key fst (''action_type'', y) [(''nonce'', n), (''target'', g), (''timestamp'', t)] =
      [(''action_type'', y), (''nonce'', n), (''target'', g), (''timestamp'', t)]"
    "insort_key fst (''agent_id'', i)
        [(''action_type'', y), (''nonce'', n), (''target'', g), (''timestamp'', t)] =
      [(''action_type'', y), (''agent_id'', i), (''nonce'', n), (''target'', g), (''timestamp'', t)]"
    "insort_key fst (''schema_version'', v)
        [(''action_type'', y), (''agent_id'', i), (''nonce'', n), (''target'', g), (''timestamp'', t)] =
      [(''action_type'', y), (''agent_id'', i), (''nonce'', n), (''schema_version'', v),
       (''target'', g), (''timestamp'', t)]"
    for n t g y i v :: string
    by (simp_all add: less_eq_char_def)
  show ?thesis by (simp add: action_fields_def sort_key_def ord keys)
qed

lemma Canonical_valid:
  "Validate a = None \<Longrightarrow> Canonical a = Ok
    (''{\"action_type\":'' @ json_string (ActionType a)
     @ '',\"agent_id\":'' @ json_string (AgentID a)
     @ '',\"nonce\":'' @ json_string (Nonce a)
     @ '',\"schema_version\":'' @ show_i64 (SchemaVersion a)
     @ '',\"target\":'' @ json_string (Target a)
     @ '',\"timestamp\":'' @ show_i64 (TimestampMs a) @ ''}'')"
  unfolding Canonical_def json_object_def sorted_fields
  by (simp add: Let_def butlast_append)

lemma Canonical_Ok: "Canonical a = Ok m \<Longrightarrow> Validate a = None"
  by (auto simp: Canonical_def split: option.splits)

lemma Canonical_no_panic [simp]: "Canonical a \<noteq> Panic"
  by (simp add: Canonical_def Let_def split: option.split)

definition utf8_action :: "action \<Rightarrow> bool" where
  "utf8_action a \<longleftrightarrow>
    valid_utf8 (AgentID a) \<and> valid_utf8 (ActionType a) \<and> valid_utf8 (Target a)"

lemma lower_hex_utf8: "\<forall>c \<in> set s. lower_hex c \<Longrightarrow> valid_utf8 s"
  by (rule valid_utf8_ascii) (auto simp: lower_hex_def between_def)

text \<open>The encoding can be read back, so two actions with one encoding are one action.\<close>

lemma Canonical_append_inj:
  assumes "Canonical a = Ok m" "Canonical b = Ok n" "m @ x = n @ y"
    and "utf8_action a" "utf8_action b"
  shows "a = b \<and> x = y"
proof -
  from assms have v: "Validate a = None" "Validate b = None" by (simp_all add: Canonical_Ok)
  then have nv: "valid_utf8 (Nonce a)" "valid_utf8 (Nonce b)"
    by (simp_all add: Validate_None_iff lower_hex_utf8)
  note u = assms(4,5) [unfolded utf8_action_def]
  from assms(1-3) have eq:
    "json_string (ActionType a) @ '',\"agent_id\":'' @ json_string (AgentID a)
       @ '',\"nonce\":'' @ json_string (Nonce a) @ '',\"schema_version\":'' @ show_i64 (SchemaVersion a)
       @ '',\"target\":'' @ json_string (Target a) @ '',\"timestamp\":'' @ show_i64 (TimestampMs a) @ ''}'' @ x =
     json_string (ActionType b) @ '',\"agent_id\":'' @ json_string (AgentID b)
       @ '',\"nonce\":'' @ json_string (Nonce b) @ '',\"schema_version\":'' @ show_i64 (SchemaVersion b)
       @ '',\"target\":'' @ json_string (Target b) @ '',\"timestamp\":'' @ show_i64 (TimestampMs b) @ ''}'' @ y"
    by (auto simp: Canonical_valid [OF v(1)] Canonical_valid [OF v(2)])
  from json_string_inj [OF eq] u have 1: "ActionType a = ActionType b" and
    "json_string (AgentID a)
       @ '',\"nonce\":'' @ json_string (Nonce a) @ '',\"schema_version\":'' @ show_i64 (SchemaVersion a)
       @ '',\"target\":'' @ json_string (Target a) @ '',\"timestamp\":'' @ show_i64 (TimestampMs a) @ ''}'' @ x =
     json_string (AgentID b)
       @ '',\"nonce\":'' @ json_string (Nonce b) @ '',\"schema_version\":'' @ show_i64 (SchemaVersion b)
       @ '',\"target\":'' @ json_string (Target b) @ '',\"timestamp\":'' @ show_i64 (TimestampMs b) @ ''}'' @ y"
    by simp_all
  from json_string_inj [OF this(2)] u have 2: "AgentID a = AgentID b" and
    "json_string (Nonce a) @ '',\"schema_version\":'' @ show_i64 (SchemaVersion a)
       @ '',\"target\":'' @ json_string (Target a) @ '',\"timestamp\":'' @ show_i64 (TimestampMs a) @ ''}'' @ x =
     json_string (Nonce b) @ '',\"schema_version\":'' @ show_i64 (SchemaVersion b)
       @ '',\"target\":'' @ json_string (Target b) @ '',\"timestamp\":'' @ show_i64 (TimestampMs b) @ ''}'' @ y"
    by simp_all
  from json_string_inj [OF this(2) nv] have 3: "Nonce a = Nonce b" and
    "show_i64 (SchemaVersion a)
       @ '',\"target\":'' @ json_string (Target a) @ '',\"timestamp\":'' @ show_i64 (TimestampMs a) @ ''}'' @ x =
     show_i64 (SchemaVersion b)
       @ '',\"target\":'' @ json_string (Target b) @ '',\"timestamp\":'' @ show_i64 (TimestampMs b) @ ''}'' @ y"
    by simp_all
  moreover have 4: "SchemaVersion a = SchemaVersion b" using v by (simp add: Validate_None_iff)
  ultimately have
    "json_string (Target a) @ '',\"timestamp\":'' @ show_i64 (TimestampMs a) @ ''}'' @ x =
     json_string (Target b) @ '',\"timestamp\":'' @ show_i64 (TimestampMs b) @ ''}'' @ y"
    by simp
  from json_string_inj [OF this] u have 5: "Target a = Target b" and
    "show_int (sint (TimestampMs a)) @ CHR ''}'' # x = show_int (sint (TimestampMs b)) @ CHR ''}'' # y"
    by (simp_all add: show_i64_def)
  from show_int_delim [OF this(2)] have "sint (TimestampMs a) = sint (TimestampMs b)" and 7: "x = y"
    by (auto simp: is_digit_def)
  then have 6: "TimestampMs a = TimestampMs b" by (metis signed_word_eqI)
  from 1 2 3 4 5 6 7 show ?thesis by (auto intro: action.equality)
qed

section \<open>Properties\<close>

text \<open>
  What a valid action is.  \<open>Validate\<close> accepts exactly the actions of schema version 1 with
  non-empty agent, type and target and a nonce of 32 lower-case hexadecimal digits.
\<close>

lemma validate_exact:
  "Validate a = None \<longleftrightarrow>
    SchemaVersion a = 1 \<and> AgentID a \<noteq> [] \<and> ActionType a \<noteq> [] \<and> Target a \<noteq> [] \<and>
    length (Nonce a) = 32 \<and>
    list_all (\<lambda>c. CHR ''0'' \<le> c \<and> c \<le> CHR ''9'' \<or> CHR ''a'' \<le> c \<and> c \<le> CHR ''f'') (Nonce a)"
proof -
  have "lower_hex c \<longleftrightarrow> CHR ''0'' \<le> c \<and> c \<le> CHR ''9'' \<or> CHR ''a'' \<le> c \<and> c \<le> CHR ''f''" for c
    by (simp add: lower_hex_def between_def less_eq_char_def)
  then show ?thesis by (simp add: Validate_None_iff list_all_iff)
qed

definition sample_action :: action where
  "sample_action = \<lparr>SchemaVersion = 1, AgentID = ''bot-1'', ActionType = ''swap'', Target = ''0xabc'',
    TimestampMs = 1700000000000, Nonce = replicate 32 (CHR ''a'')\<rparr>"

lemma sample_valid: "Validate sample_action = None" "utf8_action sample_action"
proof -
  show "Validate sample_action = None" by code_simp
  show "utf8_action sample_action"
    unfolding utf8_action_def by (intro conjI valid_utf8_ascii; code_simp)
qed

text \<open>
  C10: the signed message determines the action.  On actions whose strings are valid UTF-8 (all
  those that arrive as JSON) \<open>Canonical\<close> is injective, also when arbitrary bytes follow, so the
  leaf payload \<open>canonical || signature\<close> splits in one way only.
\<close>

theorem canonical_injective:
  assumes "Canonical a = Ok m" "Canonical b = Ok n" "m @ x = n @ y"
    and "utf8_action a" "utf8_action b"
  shows "a = b \<and> m = n \<and> x = y"
  using Canonical_append_inj [OF assms] assms(1,2) by auto

theorem canonical_injective_witness:
  "\<exists>m. Canonical sample_action = Ok m \<and> sample_action = sample_action \<and> m = m \<and> ''sig'' = ''sig''"
proof -
  obtain m where "Canonical sample_action = Ok m"
    using Canonical_valid [OF sample_valid(1)] by blast
  from canonical_injective [OF this this refl sample_valid(2) sample_valid(2)] this show ?thesis by blast
qed

text \<open>
  Without valid UTF-8 the signed message does not determine the action.  The encoder writes
  the replacement character for every stray byte, so two valid actions of two different agents
  whose identifiers are the single bytes FF and FE have one canonical encoding, hence one
  signature is valid for both under one key.
\<close>

lemma canonical_collapses_invalid_utf8:
  assumes "Validate a = None"
  shows "let a1 = a\<lparr>AgentID := [CHR 0xFF]\<rparr>; a2 = a\<lparr>AgentID := [CHR 0xFE]\<rparr> in
    a1 \<noteq> a2 \<and> Canonical a1 = Canonical a2 \<and> (\<exists>m. Canonical a1 = Ok m) \<and>
    Verify vfy a1 sig pub = Verify vfy a2 sig pub"
proof -
  let ?a1 = "a\<lparr>AgentID := [CHR 0xFF]\<rparr>" and ?a2 = "a\<lparr>AgentID := [CHR 0xFE]\<rparr>"
  have v: "Validate ?a1 = None" "Validate ?a2 = None"
    using assms by (simp_all add: Validate_None_iff)
  have "json_string [CHR 0xFF] = json_string [CHR 0xFE]" by code_simp
  then have can: "Canonical ?a1 = Canonical ?a2"
    unfolding Canonical_valid [OF v(1)] Canonical_valid [OF v(2)] by simp
  moreover have "?a1 \<noteq> ?a2"
  proof
    assume "?a1 = ?a2"
    then have "AgentID ?a1 = AgentID ?a2" by (rule arg_cong)
    then show False by simp
  qed
  moreover have "\<exists>m. Canonical ?a1 = Ok m" using Canonical_valid [OF v(1)] by blast
  ultimately show ?thesis by (simp add: Let_def Verify_def)
qed

text \<open>
  C38: a signature made by \<open>Sign\<close> is accepted by \<open>Verify\<close> under the matching public key, for every
  valid action, when the primitive's own round trip holds for that key pair; and for every action and key whatever,
  an invalid action gets its error from both, and a private key of any length but 64 and a public key of any length but 32
  the error that names that length (the key is checked before the action); with keys of the right lengths and a valid action,
  \<open>Sign\<close> cannot fail and \<open>Verify\<close> can only with an invalid signature.
\<close>

theorem sign_verify_roundtrip:
  assumes "\<forall>msg. vfy pub msg (esign priv msg)" "length priv = 64" "length pub = 32"
  shows "(Validate a = None \<longrightarrow>
      (\<exists>sig. Sign esign a priv = Ok sig \<and> Verify vfy a sig pub = None)) \<and>
    (\<forall>key. length key \<noteq> 64 \<longrightarrow> Sign esign a key = Err (ErrInvalidKeyLength (length key))) \<and>
    (\<forall>key sig. length key \<noteq> 32 \<longrightarrow> Verify vfy a sig key = Some (ErrInvalidKeyLength (length key))) \<and>
    (\<forall>key e. length key = 64 \<longrightarrow> Validate a = Some e \<longrightarrow> Sign esign a key = Err (ErrAction e)) \<and>
    (\<forall>key sig e. length key = 32 \<longrightarrow> Validate a = Some e \<longrightarrow> Verify vfy a sig key = Some (ErrAction e)) \<and>
    (\<forall>key. length key = 64 \<longrightarrow> Validate a = None \<longrightarrow> (\<exists>sig. Sign esign a key = Ok sig)) \<and>
    (\<forall>key sig. length key = 32 \<longrightarrow> Validate a = None \<longrightarrow> Verify vfy a sig key \<in> {None, Some ErrInvalidSignature})"
proof -
  have can: "Validate a = None \<Longrightarrow> \<exists>m. Canonical a = Ok m" using Canonical_valid by blast
  then have "Validate a = None \<Longrightarrow> \<exists>sig. Sign esign a priv = Ok sig \<and> Verify vfy a sig pub = None"
    using assms by (auto simp: Sign_def Verify_def PublicKeySize_def PrivateKeySize_def)
  moreover have "length key = 32 \<Longrightarrow> Validate a = None \<Longrightarrow> Verify vfy a sig key \<in> {None, Some ErrInvalidSignature}"
    for key sig using can by (auto simp: Verify_def PublicKeySize_def split: if_splits)
  moreover have "length key = 64 \<Longrightarrow> Validate a = None \<Longrightarrow> \<exists>sig. Sign esign a key = Ok sig" for key
    using can by (auto simp: Sign_def PrivateKeySize_def)
  moreover have "Validate a = Some e \<Longrightarrow> Canonical a = Err e" for e by (simp add: Canonical_def)
  ultimately show ?thesis
    by (simp add: Sign_def Verify_def PublicKeySize_def PrivateKeySize_def)
qed

text \<open>A stand-in for the primitive, to show that the hypotheses can hold.\<close>

definition toy_sign :: ed_sign where "toy_sign priv msg = drop 32 priv @ replicate 32 0"
definition toy_verify :: ed_verify where "toy_verify pub msg sig = (sig = pub @ replicate 32 0)"

theorem sign_verify_roundtrip_witness:
  "\<exists>sig. Sign toy_sign sample_action (replicate 64 7) = Ok sig \<and>
    Verify toy_verify sample_action sig (replicate 32 7) = None"
proof -
  have "\<forall>msg. toy_verify (replicate 32 7) msg (toy_sign (replicate 64 7) msg)"
    by (simp add: toy_verify_def toy_sign_def)
  from sign_verify_roundtrip [of toy_verify "replicate 32 7" toy_sign "replicate 64 7" sample_action,
      OF this] sample_valid(1)
  show ?thesis by simp
qed

end
