(* ===== verification/Keystore.thy ===== *)
theory Keystore
  imports Prelude "HOL-Library.Mapping"
begin

text \<open>
  Package \<open>internal/keystore\<close>: the interface \<open>KeyStore\<close> as a locale, the in-memory store
  \<open>Memory\<close>, which interprets it, and the behaviour of any such store over a run of operations.
  The key pair of a \<open>Create\<close> comes from the random source and is an argument (\<open>None\<close>: the source
  failed).
\<close>

section \<open>The in-memory store\<close>

type_synonym key_pair = "bytes \<times> bytes"

text \<open>
  The sentinels of \<open>keystore.go\<close>, a failure of the random source, and the two errors of an ended context, which
  another store behind the interface may return (\<open>Memory\<close> ignores its context).
\<close>

datatype keystore_error = ErrNotFound | ErrAlreadyExists | ErrRandom | ErrCanceled | ErrDeadlineExceeded

type_synonym memory = "(string, key_pair) mapping"

definition NewMemory :: memory where
  "NewMemory = Mapping.empty"

definition Memory_Create ::
  "key_pair option \<Rightarrow> memory \<Rightarrow> string \<Rightarrow> (keystore_error, bytes) go_result \<times> memory" where
  "Memory_Create gen m agentID =
    (if agentID = [] then (Err ErrNotFound, m)
     else case Mapping.lookup m agentID of
       Some _ \<Rightarrow> (Err ErrAlreadyExists, m)
     | None \<Rightarrow>
        (case gen of
           None \<Rightarrow> (Err ErrRandom, m)
         | Some (pub, priv) \<Rightarrow> (Ok pub, Mapping.update agentID (pub, priv) m)))"

definition Memory_Get :: "memory \<Rightarrow> string \<Rightarrow> (keystore_error, key_pair) go_result" where
  "Memory_Get m agentID =
    (case Mapping.lookup m agentID of None \<Rightarrow> Err ErrNotFound | Some e \<Rightarrow> Ok e)"

text \<open>\<open>sort.Strings\<close> over the keys in whatever order the map yields them.\<close>

definition Memory_List :: "memory \<Rightarrow> string list" where
  "Memory_List m = Mapping.ordered_keys m"

definition Memory_Delete :: "memory \<Rightarrow> string \<Rightarrow> keystore_error option \<times> memory" where
  "Memory_Delete m agentID =
    (case Mapping.lookup m agentID of
       None \<Rightarrow> (Some ErrNotFound, m)
     | Some _ \<Rightarrow> (None, Mapping.delete agentID m))"

section \<open>The interface\<close>

text \<open>
  What a \<open>KeyStore\<close> promises, stated on its contents \<open>keys\<close>, a finite map from agents to key
  pairs: the four operations read and write that map and nothing else.
\<close>

locale key_store =
  fixes create :: "key_pair option \<Rightarrow> 'm \<Rightarrow> string \<Rightarrow> (keystore_error, bytes) go_result \<times> 'm"
    and get :: "'m \<Rightarrow> string \<Rightarrow> (keystore_error, key_pair) go_result"
    and list :: "'m \<Rightarrow> string list"
    and delete :: "'m \<Rightarrow> string \<Rightarrow> keystore_error option \<times> 'm"
    and keys :: "'m \<Rightarrow> string \<rightharpoonup> key_pair"
    and valid :: "'m \<Rightarrow> bool"
  assumes create_new: "\<lbrakk>valid m; a \<noteq> []; keys m a = None; gen = Some (pub, priv)\<rbrakk> \<Longrightarrow>
      fst (create gen m a) = Ok pub \<and> keys (snd (create gen m a)) = (keys m)(a \<mapsto> (pub, priv)) \<and>
      valid (snd (create gen m a))"
    and create_refuses: "a = [] \<or> keys m a \<noteq> None \<or> gen = None \<Longrightarrow>
      snd (create gen m a) = m \<and> (\<exists>e. fst (create gen m a) = Err e)"
    and create_taken: "a \<noteq> [] \<Longrightarrow> keys m a \<noteq> None \<Longrightarrow> fst (create gen m a) = Err ErrAlreadyExists"
    and get_keys: "get m a = (case keys m a of None \<Rightarrow> Err ErrNotFound | Some k \<Rightarrow> Ok k)"
    and list_keys: "valid m \<Longrightarrow> sorted (list m) \<and> distinct (list m) \<and> set (list m) = dom (keys m)"
    and delete_keys: "valid m \<Longrightarrow> keys (snd (delete m a)) = (keys m)(a := None) \<and>
      valid (snd (delete m a)) \<and> (fst (delete m a) = None \<longleftrightarrow> keys m a \<noteq> None)"

datatype key_op = OpCreate "key_pair option" string | OpDelete string

fun key_run ::
  "(key_pair option \<Rightarrow> 'm \<Rightarrow> string \<Rightarrow> (keystore_error, bytes) go_result \<times> 'm) \<Rightarrow>
   ('m \<Rightarrow> string \<Rightarrow> keystore_error option \<times> 'm) \<Rightarrow> 'm \<Rightarrow> key_op list \<Rightarrow> 'm" where
  "key_run create delete m [] = m"
| "key_run create delete m (OpCreate gen a # ops) = key_run create delete (snd (create gen m a)) ops"
| "key_run create delete m (OpDelete a # ops) = key_run create delete (snd (delete m a)) ops"

text \<open>The abstract store: a map, in which the first key pair stays until it is deleted.\<close>

fun key_spec :: "(string \<rightharpoonup> key_pair) \<Rightarrow> key_op list \<Rightarrow> string \<rightharpoonup> key_pair" where
  "key_spec k [] = k"
| "key_spec k (OpCreate gen a # ops) =
    key_spec (if a \<noteq> [] \<and> k a = None \<and> gen \<noteq> None then k(a \<mapsto> the gen) else k) ops"
| "key_spec k (OpDelete a # ops) = key_spec (k(a := None)) ops"

context key_store begin

lemma create_keys:
  assumes "valid m"
  shows "keys (snd (create gen m a)) =
      (if a \<noteq> [] \<and> keys m a = None \<and> gen \<noteq> None then (keys m)(a \<mapsto> the gen) else keys m)"
    and "valid (snd (create gen m a))"
proof -
  have "keys (snd (create gen m a)) =
      (if a \<noteq> [] \<and> keys m a = None \<and> gen \<noteq> None then (keys m)(a \<mapsto> the gen) else keys m)
      \<and> valid (snd (create gen m a))"
  proof (cases "a \<noteq> [] \<and> keys m a = None \<and> gen \<noteq> None")
    case True
    then obtain pub priv where "gen = Some (pub, priv)" by auto
    with True create_new [OF assms] show ?thesis by simp
  next
    case False
    then have "snd (create gen m a) = m" using create_refuses [of a m gen] by blast
    with False assms show ?thesis by auto
  qed
  then show "keys (snd (create gen m a)) =
      (if a \<noteq> [] \<and> keys m a = None \<and> gen \<noteq> None then (keys m)(a \<mapsto> the gen) else keys m)"
    and "valid (snd (create gen m a))"
    by simp_all
qed

lemma run_refines:
  "valid m \<Longrightarrow> keys (key_run create delete m ops) = key_spec (keys m) ops \<and>
    valid (key_run create delete m ops)"
  by (induction "keys m" ops arbitrary: m rule: key_spec.induct)
    (auto simp: create_keys delete_keys)

lemma get_after_run:
  "valid m \<Longrightarrow> get (key_run create delete m ops) a =
    (case key_spec (keys m) ops a of None \<Rightarrow> Err ErrNotFound | Some k \<Rightarrow> Ok k)"
  by (simp add: get_keys run_refines)

lemma list_after_run:
  "valid m \<Longrightarrow> sorted (list (key_run create delete m ops)) \<and>
    distinct (list (key_run create delete m ops)) \<and>
    set (list (key_run create delete m ops)) = dom (key_spec (keys m) ops)"
  using run_refines [of m ops] list_keys by simp

end

text \<open>The contents of the in-memory store are a finite map.\<close>

definition memory_ok :: "memory \<Rightarrow> bool" where
  "memory_ok m \<longleftrightarrow> finite (Mapping.keys m)"

lemma lookup_delete_all: "Mapping.lookup (Mapping.delete k m) x = (if x = k then None else Mapping.lookup m x)"
  by simp

interpretation mem: key_store Memory_Create Memory_Get Memory_List Memory_Delete Mapping.lookup memory_ok
proof
  fix m :: memory and a gen pub priv
  show "\<lbrakk>memory_ok m; a \<noteq> []; Mapping.lookup m a = None; gen = Some (pub, priv)\<rbrakk> \<Longrightarrow>
      fst (Memory_Create gen m a) = Ok pub \<and>
      Mapping.lookup (snd (Memory_Create gen m a)) = (Mapping.lookup m)(a \<mapsto> (pub, priv)) \<and>
      memory_ok (snd (Memory_Create gen m a))"
    by (simp add: Memory_Create_def memory_ok_def lookup_update' fun_eq_iff)
  show "a = [] \<or> Mapping.lookup m a \<noteq> None \<or> gen = None \<Longrightarrow>
      snd (Memory_Create gen m a) = m \<and> (\<exists>e. fst (Memory_Create gen m a) = Err e)"
    by (auto simp: Memory_Create_def split: option.split)
  show "a \<noteq> [] \<Longrightarrow> Mapping.lookup m a \<noteq> None \<Longrightarrow>
      fst (Memory_Create gen m a) = Err ErrAlreadyExists"
    by (auto simp: Memory_Create_def)
  show "Memory_Get m a = (case Mapping.lookup m a of None \<Rightarrow> Err ErrNotFound | Some k \<Rightarrow> Ok k)"
    by (simp add: Memory_Get_def)
  show "memory_ok m \<Longrightarrow> sorted (Memory_List m) \<and> distinct (Memory_List m) \<and>
      set (Memory_List m) = dom (Mapping.lookup m)"
    by (simp add: Memory_List_def memory_ok_def ordered_keys_def keys_dom_lookup)
  show "memory_ok m \<Longrightarrow> Mapping.lookup (snd (Memory_Delete m a)) = (Mapping.lookup m)(a := None) \<and>
      memory_ok (snd (Memory_Delete m a)) \<and>
      (fst (Memory_Delete m a) = None \<longleftrightarrow> Mapping.lookup m a \<noteq> None)"
    by (auto simp: Memory_Delete_def memory_ok_def lookup_delete_all fun_eq_iff split: option.split)
qed

section \<open>Properties\<close>

text \<open>
  C24: the in-memory store refines a plain map.  After any sequence of creations (with any random
  source results) and deletions, \<open>Get\<close> returns the key pair of the first creation of that agent
  since its last deletion, \<open>ErrNotFound\<close> where there is none, and \<open>List\<close> returns exactly the
  present agents, sorted and without repetition.
\<close>

theorem memory_refines_map:
  "(\<forall>a. Memory_Get (key_run Memory_Create Memory_Delete NewMemory ops) a =
      (case key_spec Map.empty ops a of None \<Rightarrow> Err ErrNotFound | Some k \<Rightarrow> Ok k)) \<and>
   sorted (Memory_List (key_run Memory_Create Memory_Delete NewMemory ops)) \<and>
   distinct (Memory_List (key_run Memory_Create Memory_Delete NewMemory ops)) \<and>
   set (Memory_List (key_run Memory_Create Memory_Delete NewMemory ops)) = dom (key_spec Map.empty ops)"
proof -
  have "memory_ok NewMemory" "Mapping.lookup NewMemory = Map.empty"
    by (simp_all add: memory_ok_def NewMemory_def fun_eq_iff)
  then show ?thesis
    using mem.get_after_run [of NewMemory ops] mem.list_after_run [of NewMemory ops] by simp
qed

end
