(* ===== verification/Auditlog.thy ===== *)
theory Auditlog
  imports Action Keystore Merkle_Tree
begin

text \<open>
  Package \<open>internal/auditlog\<close>, file \<open>pipeline.go\<close>: the pipeline that verifies signed actions,
  appends them to the Merkle tree and tells its subscribers.  Every method that takes the lock
  is one function on the pipeline's state; \<open>Submit\<close> is split where the code takes the lock, so
  that concurrent calls are interleavings of these functions.  The clock's readings, the store's answer, the operating system's
  answers and the signature check are arguments.
\<close>

section \<open>Time\<close>

text \<open>
  A \<open>time.Time\<close> from \<open>time.Now\<close> carries two readings, in nanoseconds: of the wall clock, which may be set
  back or forth, and of the monotonic clock, which may not.  The two are independent here, and the
  monotonic readings of different calls are in no order either.  \<open>UnixMilli\<close> and the JSON form use the wall clock,
  \<open>Sub\<close> the monotonic one.  A clock injected by \<open>WithClock\<close> whose instants have no monotonic reading, so that
  \<open>Sub\<close> falls back on the wall clock, is the case that both readings are equal.
\<close>

record instant =
  wall :: int
  mono :: int

definition UnixMilli :: "instant \<Rightarrow> i64" where
  "UnixMilli t = word_of_int (wall t div 1000000)"

text \<open>\<open>time.Time.Sub\<close> saturates at the bounds of a 64-bit duration.\<close>

definition time_Sub :: "instant \<Rightarrow> instant \<Rightarrow> int" where
  "time_Sub t u = max (- (2 ^ 63)) (min (2 ^ 63 - 1) (mono t - mono u))"

definition absInt64 :: "i64 \<Rightarrow> i64" where
  "absInt64 v = (if v <s 0 then - v else v)"

text \<open>\<open>time.Duration(MaxSkewMillis+NonceWindowMs) * time.Millisecond\<close>.\<close>

definition replay_window :: int where
  "replay_window = sint ((MaxSkewMillis + NonceWindowMs) * 1000000)"

definition expired :: "instant \<Rightarrow> instant \<Rightarrow> bool" where
  "expired recordedAt now = (time_Sub now recordedAt > replay_window)"

definition skewed :: "instant \<Rightarrow> action \<Rightarrow> bool" where
  "skewed now a = (MaxSkewMillis <s absInt64 (UnixMilli now - TimestampMs a))"

section \<open>Events and the pipeline\<close>

definition KindAppended :: string where "KindAppended = ''appended''"
definition KindRejected :: string where "KindRejected = ''rejected''"

record event =
  Seq :: u64
  Kind :: string
  LeafIndex :: u64
  LeafHash :: bytes
  ev_Action :: "action option"
  Signature :: bytes
  PublicKey :: bytes
  ev_AgentID :: string
  ev_ActionType :: string
  ev_Target :: string
  Reason :: string
  RecordedAt :: instant

text \<open>A subscriber's channel: what is buffered in it, and whether it was closed (which the
  code does exactly when it takes the subscriber out of the map).\<close>

record chan =
  buffered :: "event list"
  closed :: bool

record pipeline =
  p_tree :: tree
  subBuffer :: nat
  seen :: "string \<rightharpoonup> event"
  events :: "event list"
  subs :: "u64 \<rightharpoonup> chan"
  nextID :: u64

datatype pipeline_option = WithSubscriberBuffer int | WithClock

fun apply_option :: "pipeline_option \<Rightarrow> pipeline \<Rightarrow> pipeline" where
  "apply_option (WithSubscriberBuffer n) p = (if n > 0 then p\<lparr>subBuffer := nat n\<rparr> else p)"
| "apply_option WithClock p = p"

definition NewPipeline :: "tree \<Rightarrow> pipeline_option list \<Rightarrow> pipeline" where
  "NewPipeline t opts =
    fold apply_option opts
      \<lparr>p_tree = t, subBuffer = 16, seen = Map.empty, events = [], subs = Map.empty, nextID = 0\<rparr>"

definition replayKey :: "string \<Rightarrow> string \<Rightarrow> string" where
  "replayKey agentID nonce = agentID @ ''|'' @ nonce"

section \<open>Publishing\<close>

text \<open>The non-blocking send to one subscriber and to all of them.\<close>

definition offer :: "nat \<Rightarrow> event \<Rightarrow> chan \<Rightarrow> chan" where
  "offer cap ev c =
    (if closed c \<or> length (buffered c) \<ge> cap then c else c\<lparr>buffered := buffered c @ [ev]\<rparr>)"

definition broadcast :: "event \<Rightarrow> pipeline \<Rightarrow> pipeline" where
  "broadcast ev p = p\<lparr>subs := (\<lambda>sid. map_option (offer (subBuffer p) ev) (subs p sid))\<rparr>"

definition record_event :: "event \<Rightarrow> pipeline \<Rightarrow> event \<times> pipeline" where
  "record_event ev p =
    (let ev' = ev\<lparr>Seq := of_nat (length (events p @ [ev])) - 1\<rparr>
     in (ev', p\<lparr>events := events p @ [ev']\<rparr>))"

definition publish :: "event \<Rightarrow> pipeline \<Rightarrow> pipeline" where
  "publish ev p = (let (ev', p') = record_event ev p in broadcast ev' p')"

definition rejection :: "action option \<Rightarrow> string \<Rightarrow> string \<Rightarrow> string \<Rightarrow> string \<Rightarrow> instant \<Rightarrow> event" where
  "rejection act agentID actionType target reason now =
    \<lparr>Seq = 0, Kind = KindRejected, LeafIndex = 0, LeafHash = [], ev_Action = act, Signature = [],
     PublicKey = [], ev_AgentID = agentID, ev_ActionType = actionType, ev_Target = target,
     Reason = reason, RecordedAt = now\<rparr>"

definition RecordRejection ::
  "instant \<Rightarrow> string \<Rightarrow> string \<Rightarrow> string \<Rightarrow> string \<Rightarrow> pipeline \<Rightarrow> pipeline" where
  "RecordRejection now agentID actionType target reason p =
    publish (rejection None agentID actionType target reason now) p"

text \<open>The event that \<open>recordRejectionFromAction\<close> publishes.\<close>

definition action_rejection :: "instant \<Rightarrow> action \<Rightarrow> string \<Rightarrow> event" where
  "action_rejection now a reason =
    rejection (Some a) (AgentID a) (ActionType a) (Target a) reason now"

definition recordRejectionFromAction :: "instant \<Rightarrow> action \<Rightarrow> string \<Rightarrow> pipeline \<Rightarrow> pipeline" where
  "recordRejectionFromAction now a reason p = publish (action_rejection now a reason) p"

fun rejectionReasonForValidate :: "action_error \<Rightarrow> string" where
  "rejectionReasonForValidate ErrEmptyField = ''invalid_action''"
| "rejectionReasonForValidate ErrNonceShape = ''invalid_nonce''"
| "rejectionReasonForValidate (ErrSchemaVersion v) = ''schema_version''"

section \<open>Submit\<close>

datatype submit_error =
    SubmitSchemaVersion | SubmitInvalid action_error | SubmitTimestampSkew | SubmitUnknownAgent
  | SubmitStore keystore_error | SubmitSignature signing_error | SubmitTree merkle_error

text \<open>What the part of \<open>Submit\<close> before the lock hands on.\<close>

record admission =
  adm_action :: action
  adm_sig :: bytes
  adm_pub :: bytes
  adm_canon :: string
  adm_now :: instant

datatype verdict =
    Fail submit_error
  | Deny event submit_error
  | Admit admission
  | VerdictPanic

text \<open>
  \<open>now\<close> is the reading compared with the timestamp, \<open>now_rej\<close> the one taken for a rejection
  event; \<open>get\<close> is the store's \<open>Get\<close> at that moment.
\<close>

definition submit_verify ::
  "ed_verify \<Rightarrow> (string \<Rightarrow> (keystore_error, key_pair) go_result) \<Rightarrow> instant \<Rightarrow> instant \<Rightarrow>
    action option \<Rightarrow> bytes \<Rightarrow> verdict" where
  "submit_verify vfy get now now_rej act sig =
    (case act of
       None \<Rightarrow> Fail SubmitSchemaVersion
     | Some a \<Rightarrow>
        (if SchemaVersion a \<noteq> schema_version_const
         then Deny (action_rejection now_rej a ''schema_version'') SubmitSchemaVersion
         else case Validate a of
           Some e \<Rightarrow>
             Deny (action_rejection now_rej a (rejectionReasonForValidate e)) (SubmitInvalid e)
         | None \<Rightarrow>
            (if skewed now a
             then Deny (action_rejection now_rej a ''timestamp_skew'') SubmitTimestampSkew
             else case get (AgentID a) of
               Panic \<Rightarrow> VerdictPanic
             | Err e \<Rightarrow>
                (if e = ErrNotFound
                 then Deny (action_rejection now_rej a ''unknown_agent'') SubmitUnknownAgent
                 else Fail (SubmitStore e))
             | Ok (pub, priv) \<Rightarrow>
                (case Verify vfy a sig pub of
                   Some e \<Rightarrow>
                     Deny (action_rejection now_rej a ''invalid_signature'') (SubmitSignature e)
                 | None \<Rightarrow>
                    (case Canonical a of
                       Err e \<Rightarrow> Fail (SubmitInvalid e)
                     | Panic \<Rightarrow> VerdictPanic
                     | Ok canon \<Rightarrow>
                         Admit \<lparr>adm_action = a, adm_sig = sig, adm_pub = pub,
                           adm_canon = canon, adm_now = now\<rparr>)))))"

definition leaf_payload :: "admission \<Rightarrow> bytes" where
  "leaf_payload r = bytes_of (adm_canon r) @ adm_sig r"

definition adm_key :: "admission \<Rightarrow> string" where
  "adm_key r = replayKey (AgentID (adm_action r)) (Nonce (adm_action r))"

definition appended_event :: "admission \<Rightarrow> u64 \<Rightarrow> event" where
  "appended_event r idx =
    \<lparr>Seq = 0, Kind = KindAppended, LeafIndex = idx, LeafHash = HashLeaf (leaf_payload r),
     ev_Action = Some (adm_action r), Signature = adm_sig r, PublicKey = adm_pub r,
     ev_AgentID = [], ev_ActionType = [], ev_Target = [], Reason = [], RecordedAt = adm_now r\<rparr>"

type_synonym submit_result = "(submit_error, event \<times> bool) go_result"

text \<open>The rest of \<open>Submit\<close>, under the lock, when no cached event answers the call.\<close>

definition append_fresh :: "leaf_io \<Rightarrow> admission \<Rightarrow> pipeline \<Rightarrow> submit_result \<times> pipeline" where
  "append_fresh io r p =
    (case Append io (p_tree p) (leaf_payload r) of
       (Err e, t') \<Rightarrow> (Err (SubmitTree e), p\<lparr>p_tree := t'\<rparr>)
     | (Panic, t') \<Rightarrow> (Panic, p\<lparr>p_tree := t'\<rparr>)
     | (Ok idx, t') \<Rightarrow>
        (let (ev, p') = record_event (appended_event r idx) (p\<lparr>p_tree := t'\<rparr>);
             p'' = p'\<lparr>seen := (seen p')(adm_key r \<mapsto> ev)\<rparr>
         in (Ok (ev, True), broadcast ev p'')))"

definition submit_locked :: "leaf_io \<Rightarrow> admission \<Rightarrow> pipeline \<Rightarrow> submit_result \<times> pipeline" where
  "submit_locked io r p =
    (case seen p (adm_key r) of
       Some cached \<Rightarrow>
        (if \<not> expired (RecordedAt cached) (adm_now r) then (Ok (cached, False), p)
         else append_fresh io r (p\<lparr>seen := (seen p)(adm_key r := None)\<rparr>))
     | None \<Rightarrow> append_fresh io r p)"

definition Submit ::
  "ed_verify \<Rightarrow> (string \<Rightarrow> (keystore_error, key_pair) go_result) \<Rightarrow> instant \<Rightarrow> instant \<Rightarrow> leaf_io \<Rightarrow>
    action option \<Rightarrow> bytes \<Rightarrow> pipeline \<Rightarrow> submit_result \<times> pipeline" where
  "Submit vfy get now now_rej io act sig p =
    (case submit_verify vfy get now now_rej act sig of
       Fail e \<Rightarrow> (Err e, p)
     | Deny ev e \<Rightarrow> (Err e, publish ev p)
     | VerdictPanic \<Rightarrow> (Panic, p)
     | Admit r \<Rightarrow> submit_locked io r p)"

section \<open>Subscribers and queries\<close>

definition Subscribe :: "pipeline \<Rightarrow> u64 \<times> pipeline" where
  "Subscribe p =
    (nextID p, p\<lparr>subs := (subs p)(nextID p \<mapsto> \<lparr>buffered = [], closed = False\<rparr>),
       nextID := nextID p + 1\<rparr>)"

definition cancel :: "u64 \<Rightarrow> pipeline \<Rightarrow> pipeline" where
  "cancel sid p =
    p\<lparr>subs := (subs p)(sid := map_option (\<lambda>c. c\<lparr>closed := True\<rparr>) (subs p sid))\<rparr>"

text \<open>The subscriber's receive: \<open>None\<close> blocks or, when closed and drained, reports the end.\<close>

definition receive :: "u64 \<Rightarrow> pipeline \<Rightarrow> event option \<times> pipeline" where
  "receive sid p =
    (case subs p sid of
       Some c \<Rightarrow>
        (case buffered c of
           [] \<Rightarrow> (None, p)
         | ev # rest \<Rightarrow> (Some ev, p\<lparr>subs := (subs p)(sid \<mapsto> c\<lparr>buffered := rest\<rparr>)\<rparr>))
     | None \<Rightarrow> (None, p))"

definition EventsSince :: "u64 \<Rightarrow> pipeline \<Rightarrow> event list" where
  "EventsSince since p = [e \<leftarrow> events p. Kind e = KindAppended \<and> \<not> LeafIndex e < since]"

definition AllEventsSince :: "u64 \<Rightarrow> pipeline \<Rightarrow> event list" where
  "AllEventsSince since p =
    (if since \<ge> of_nat (length (events p)) then [] else drop (unat since) (events p))"

definition PipelineSize :: "pipeline \<Rightarrow> u64" where
  "PipelineSize p = Size (p_tree p)"

section \<open>What the helpers keep\<close>

lemma broadcast_frame [frame, simp]:
  "events (broadcast ev p) = events p" "seen (broadcast ev p) = seen p"
  "p_tree (broadcast ev p) = p_tree p" "subBuffer (broadcast ev p) = subBuffer p"
  "nextID (broadcast ev p) = nextID p"
  by (simp_all add: broadcast_def)

lemma subs_broadcast [simp]:
  "subs (broadcast ev p) sid = map_option (offer (subBuffer p) ev) (subs p sid)"
  by (simp add: broadcast_def)

definition at_seq :: "event \<Rightarrow> nat \<Rightarrow> event" where
  "at_seq ev n = ev\<lparr>Seq := of_nat n\<rparr>"

lemma at_seq_simps [simp]:
  "Seq (at_seq ev n) = of_nat n" "Kind (at_seq ev n) = Kind ev" "LeafIndex (at_seq ev n) = LeafIndex ev"
  "LeafHash (at_seq ev n) = LeafHash ev" "ev_Action (at_seq ev n) = ev_Action ev"
  "Signature (at_seq ev n) = Signature ev" "PublicKey (at_seq ev n) = PublicKey ev"
  "RecordedAt (at_seq ev n) = RecordedAt ev"
  by (simp_all add: at_seq_def)

lemma record_event_eq:
  "record_event ev p = (at_seq ev (length (events p)),
    p\<lparr>events := events p @ [at_seq ev (length (events p))]\<rparr>)"
  by (simp add: record_event_def at_seq_def Let_def)

lemma publish_frame [simp]:
  "events (publish ev p) = events p @ [at_seq ev (length (events p))]"
  "seen (publish ev p) = seen p" "p_tree (publish ev p) = p_tree p"
  "subBuffer (publish ev p) = subBuffer p"
  by (simp_all add: publish_def record_event_eq)

lemma append_fresh_ok:
  assumes "Append io (p_tree p) (leaf_payload r) = (Ok idx, t')"
  shows "append_fresh io r p =
    (let ev = at_seq (appended_event r idx) (length (events p))
     in (Ok (ev, True), broadcast ev (p\<lparr>p_tree := t', events := events p @ [ev],
          seen := (seen p)(adm_key r \<mapsto> ev)\<rparr>)))"
  using assms by (simp add: append_fresh_def record_event_eq Let_def)

section \<open>What is admitted\<close>

text \<open>The conditions under which the code goes on to the lock.\<close>

definition admissible :: "ed_verify \<Rightarrow> admission \<Rightarrow> bool" where
  "admissible vfy r \<longleftrightarrow>
    Validate (adm_action r) = None \<and> \<not> skewed (adm_now r) (adm_action r) \<and>
    Canonical (adm_action r) = Ok (adm_canon r) \<and> length (adm_pub r) = 32 \<and>
    vfy (adm_pub r) (bytes_of (adm_canon r)) (adm_sig r)"

lemma submit_verify_Admit:
  "submit_verify vfy get now now_rej act sig = Admit r \<longleftrightarrow>
    act = Some (adm_action r) \<and> sig = adm_sig r \<and> now = adm_now r \<and> admissible vfy r \<and>
    (\<exists>priv. get (AgentID (adm_action r)) = Ok (adm_pub r, priv))"
proof (cases act)
  case (Some a)
  have sv: "Validate a = None \<Longrightarrow> SchemaVersion a = schema_version_const"
    by (simp add: Validate_None_iff schema_version_const_def)
  show ?thesis
    using sv by (cases r) (auto simp: submit_verify_def Some admissible_def Verify_def
        PublicKeySize_def split: if_splits option.splits go_result.splits prod.splits)
qed (simp add: submit_verify_def)

text \<open>The absolute value of the smallest 64-bit integer is that integer, a negative number.\<close>

lemma sint_absInt64: "sint (absInt64 v) = (if sint v = - (2 ^ 63) then - (2 ^ 63) else \<bar>sint v\<bar>)"
proof -
  have r: "- (2 ^ 63) \<le> sint v" "sint v < 2 ^ 63"
    using sint_range_size [of v] by (auto simp: word_size)
  have "sint (- v) = (if sint v = - (2 ^ 63) then - (2 ^ 63) else - sint v)"
  proof (cases "sint v = - (2 ^ 63)")
    case True
    then show ?thesis by (simp add: sint_word_minus)
  next
    case False
    with r have "signed_take_bit 63 (- sint v) = - sint v"
      by (intro signed_take_bit_int_eq_self) auto
    with False show ?thesis by (simp add: sint_word_minus)
  qed
  then show ?thesis by (auto simp: absInt64_def word_sless_alt)
qed

lemma not_skewed_iff:
  "\<not> skewed now a \<longleftrightarrow>
    \<bar>sint (UnixMilli now - TimestampMs a)\<bar> \<le> 30000 \<or>
    sint (UnixMilli now - TimestampMs a) = - (2 ^ 63)"
  by (auto simp: skewed_def word_sless_alt sint_absInt64 MaxSkewMillis_def)

lemma replay_window_ns: "replay_window = 630000 * 1000000"
  by (simp add: replay_window_def MaxSkewMillis_def NonceWindowMs_def)

lemma expired_iff: "expired recordedAt now \<longleftrightarrow> mono now - mono recordedAt > 630000 * 1000000"
  by (auto simp: expired_def time_Sub_def replay_window_ns)

text \<open>The separator cannot be forged: a nonce has a fixed length.\<close>

lemma replayKey_inj:
  "length n = length n' \<Longrightarrow> replayKey a n = replayKey b n' \<longleftrightarrow> a = b \<and> n = n'"
  by (auto simp: replayKey_def append_eq_append_conv)

end
