(* ===== verification/Auditlog_Steps.thy ===== *)
theory Auditlog_Steps
  imports Auditlog "HOL-Library.Sublist"
begin

text \<open>
  The pipeline under concurrent use.  A state holds the pipeline, the key store, the calls of
  \<open>Submit\<close> that wait for the lock (with their verdicts) and, for the record, what each subscriber
  has received.  A step is one critical section or one verification; any interleaving of
  handlers is a run of steps.  The invariant is proved by rule induction.
\<close>

section \<open>The step relation\<close>

record sys =
  s_pipe :: pipeline
  s_store :: memory
  s_ready :: "admission list"
  s_denied :: "event list"
  s_got :: "u64 \<Rightarrow> event list"
  s_from :: "u64 \<Rightarrow> nat"

inductive sys_step :: "ed_verify \<Rightarrow> sys \<Rightarrow> sys \<Rightarrow> bool" for vfy where
  verify_admit: "submit_verify vfy (Memory_Get (s_store s)) now now' act sig = Admit r \<Longrightarrow>
    sys_step vfy s (s\<lparr>s_ready := s_ready s @ [r]\<rparr>)"
| verify_deny: "submit_verify vfy (Memory_Get (s_store s)) now now' act sig = Deny ev e \<Longrightarrow>
    sys_step vfy s (s\<lparr>s_denied := s_denied s @ [ev]\<rparr>)"
| lock_append: "r \<in> set (s_ready s) \<Longrightarrow> submit_locked io r (s_pipe s) = (res, p) \<Longrightarrow>
    sys_step vfy s (s\<lparr>s_pipe := p, s_ready := remove1 r (s_ready s)\<rparr>)"
| lock_deny: "ev \<in> set (s_denied s) \<Longrightarrow>
    sys_step vfy s (s\<lparr>s_pipe := publish ev (s_pipe s), s_denied := remove1 ev (s_denied s)\<rparr>)"
| external: "sys_step vfy s (s\<lparr>s_pipe := RecordRejection now ag ty tg reason (s_pipe s)\<rparr>)"
| subscribe: "Subscribe (s_pipe s) = (sid, p) \<Longrightarrow>
    sys_step vfy s (s\<lparr>s_pipe := p, s_got := (s_got s)(sid := []),
      s_from := (s_from s)(sid := length (events (s_pipe s)))\<rparr>)"
| cancelled: "sys_step vfy s (s\<lparr>s_pipe := cancel sid (s_pipe s)\<rparr>)"
| received: "receive sid (s_pipe s) = (Some ev, p) \<Longrightarrow>
    sys_step vfy s (s\<lparr>s_pipe := p, s_got := (s_got s)(sid := s_got s sid @ [ev])\<rparr>)"
| key_created: "sys_step vfy s (s\<lparr>s_store := snd (Memory_Create gen (s_store s) ag)\<rparr>)"
| key_deleted: "sys_step vfy s (s\<lparr>s_store := snd (Memory_Delete (s_store s) ag)\<rparr>)"

definition initial :: "tree \<Rightarrow> pipeline_option list \<Rightarrow> sys \<Rightarrow> bool" where
  "initial t opts s \<longleftrightarrow> s_pipe s = NewPipeline t opts \<and> s_ready s = [] \<and> s_denied s = []"

definition reachable :: "ed_verify \<Rightarrow> tree \<Rightarrow> sys \<Rightarrow> bool" where
  "reachable vfy t s \<longleftrightarrow> (\<exists>s0 opts. initial t opts s0 \<and> (sys_step vfy)\<^sup>*\<^sup>* s0 s)"

section \<open>The invariant of the log\<close>

definition appended :: "pipeline \<Rightarrow> event list" where
  "appended p = [e \<leftarrow> events p. Kind e = KindAppended]"

definition ev_key :: "event \<Rightarrow> string" where
  "ev_key e = (case ev_Action e of Some a \<Rightarrow> replayKey (AgentID a) (Nonce a) | None \<Rightarrow> [])"

text \<open>Events \<open>e\<close> and, later, \<open>e'\<close> for one agent and nonce lie a replay window apart.\<close>

definition spaced :: "event \<Rightarrow> event \<Rightarrow> bool" where
  "spaced e e' \<longleftrightarrow> (ev_key e = ev_key e' \<longrightarrow> expired (RecordedAt e) (RecordedAt e'))"

definition from_admission :: "ed_verify \<Rightarrow> event \<Rightarrow> bool" where
  "from_admission vfy e \<longleftrightarrow> 
    (\<exists>r n. admissible vfy r \<and> e = at_seq (appended_event r (LeafIndex e)) n)"

definition log_inv :: "ed_verify \<Rightarrow> bytes list \<Rightarrow> pipeline \<Rightarrow> bool" where
  "log_inv vfy base p \<longleftrightarrow>
    map Seq (events p) = map of_nat [0..<length (events p)] \<and>
    t_leaves (p_tree p) = base @ map LeafHash (appended p) \<and>
    map LeafIndex (appended p) = map of_nat [length base..<length base + length (appended p)] \<and>
    t_file (p_tree p) = None \<and> \<not> t_closed (p_tree p) \<and>
    (\<forall>e \<in> set (appended p). from_admission vfy e) \<and>
    sorted_wrt spaced (appended p) \<and>
    (\<forall>e \<in> set (appended p). \<exists>c. seen p (ev_key e) = Some c \<and> mono (RecordedAt e) \<le> mono (RecordedAt c)) \<and>
    (\<forall>k c. seen p k = Some c \<longrightarrow> c \<in> set (appended p) \<and> ev_key c = k)"

definition sub_inv :: "pipeline \<Rightarrow> (u64 \<Rightarrow> event list) \<Rightarrow> (u64 \<Rightarrow> nat) \<Rightarrow> bool" where
  "sub_inv p got from \<longleftrightarrow>
    (\<forall>sid c. subs p sid = Some c \<longrightarrow> length (buffered c) \<le> subBuffer p \<and>
      from sid \<le> length (events p) \<and> subseq (got sid @ buffered c) (drop (from sid) (events p)))"

definition sys_inv :: "ed_verify \<Rightarrow> bytes list \<Rightarrow> sys \<Rightarrow> bool" where
  "sys_inv vfy base s \<longleftrightarrow>
    log_inv vfy base (s_pipe s) \<and> sub_inv (s_pipe s) (s_got s) (s_from s) \<and>
    (\<forall>r \<in> set (s_ready s). admissible vfy r) \<and>
    (\<forall>ev \<in> set (s_denied s). Kind ev = KindRejected)"

lemma kinds_differ [simp]: "KindRejected \<noteq> KindAppended" "KindAppended \<noteq> KindRejected"
  by (simp_all add: KindAppended_def KindRejected_def)

lemma Kind_simps [simp]:
  "Kind (appended_event r i) = KindAppended" "Kind (rejection act ag ty tg reason now) = KindRejected"
  "Kind (action_rejection now a reason) = KindRejected"
  by (simp_all add: appended_event_def rejection_def action_rejection_def)

lemma event_of_admission [simp]:
  "LeafIndex (appended_event r i) = i" "LeafHash (appended_event r i) = HashLeaf (leaf_payload r)"
  "RecordedAt (appended_event r i) = adm_now r" "ev_Action (appended_event r i) = Some (adm_action r)"
  "ev_key (at_seq (appended_event r i) n) = adm_key r"
  by (simp_all add: appended_event_def ev_key_def adm_key_def)

section \<open>Rejections keep the log\<close>

lemma log_inv_publish:
  "log_inv vfy base p \<Longrightarrow> Kind ev \<noteq> KindAppended \<Longrightarrow> log_inv vfy base (publish ev p)"
  by (simp add: log_inv_def appended_def)

lemma log_inv_subs:
  "log_inv vfy base p \<Longrightarrow> log_inv vfy base (p\<lparr>subs := x\<rparr>)"
  "log_inv vfy base p \<Longrightarrow> log_inv vfy base (p\<lparr>subs := x, nextID := y\<rparr>)"
  by (simp_all add: log_inv_def appended_def)

section \<open>An append keeps the log\<close>

lemma log_inv_append:
  fixes p :: pipeline and r :: admission
  defines "ev \<equiv> at_seq (appended_event r (of_nat (length (t_leaves (p_tree p))))) (length (events p))"
  assumes inv: "log_inv vfy base p" and adm: "admissible vfy r"
    and old: "\<forall>c. seen p (adm_key r) = Some c \<longrightarrow> expired (RecordedAt c) (adm_now r)"
  shows "log_inv vfy base (p\<lparr>p_tree := (p_tree p)\<lparr>t_leaves := t_leaves (p_tree p)
      @ [HashLeaf (leaf_payload r)]\<rparr>, events := events p @ [ev], seen := (seen p)(adm_key r \<mapsto> ev)\<rparr>)"
    (is "log_inv vfy base ?q")
proof -
  have ap: "appended ?q = appended p @ [ev]" by (simp add: appended_def ev_def)
  have key: "ev_key ev = adm_key r" "RecordedAt ev = adm_now r" by (simp_all add: ev_def)
  have late: "expired (RecordedAt e) (adm_now r) \<and> mono (RecordedAt e) \<le> mono (adm_now r)"
    if e: "e \<in> set (appended p)" "ev_key e = adm_key r" for e
  proof -
    obtain c where "seen p (adm_key r) = Some c" "mono (RecordedAt e) \<le> mono (RecordedAt c)"
      using inv e by (auto simp: log_inv_def)
    with old show ?thesis by (auto simp: expired_iff)
  qed
  note parts = inv [unfolded log_inv_def]
  have "sorted_wrt spaced (appended p @ [ev])"
    using parts late by (auto simp: sorted_wrt_append spaced_def key)
  moreover have "\<forall>e \<in> set (appended p @ [ev]). from_admission vfy e"
  proof -
    have "from_admission vfy ev"
      unfolding from_admission_def ev_def using adm
      by (intro exI [of _ r] exI [of _ "length (events p)"]) simp
    with parts show ?thesis by auto
  qed
  moreover have "\<forall>e \<in> set (appended p @ [ev]).
      \<exists>c. ((seen p)(adm_key r \<mapsto> ev)) (ev_key e) = Some c \<and> mono (RecordedAt e) \<le> mono (RecordedAt c)"
    using parts late by (auto simp: key)
  moreover have "\<forall>k c. ((seen p)(adm_key r \<mapsto> ev)) k = Some c \<longrightarrow>
      c \<in> set (appended p @ [ev]) \<and> ev_key c = k"
    using parts by (auto simp: key)
  moreover have "map Seq (events p @ [ev]) = map of_nat [0..<length (events p @ [ev])]"
    using parts by (simp add: ev_def)
  moreover have "map LeafIndex (appended p @ [ev]) =
      map of_nat [length base..<length base + length (appended p @ [ev])]"
    using parts by (simp add: ev_def)
  moreover have "t_leaves (p_tree p) @ [HashLeaf (leaf_payload r)] =
      base @ map LeafHash (appended p @ [ev])"
    using parts by (simp add: ev_def)
  ultimately show ?thesis
    unfolding log_inv_def ap using parts by (simp del: map_append)
qed

text \<open>The two outcomes of the locked part of \<open>Submit\<close> on a tree that is in memory only.\<close>

lemma submit_locked_memory:
  fixes p :: pipeline and r :: admission
  defines "ev \<equiv> at_seq (appended_event r (of_nat (length (t_leaves (p_tree p))))) (length (events p))"
  assumes "t_file (p_tree p) = None" "\<not> t_closed (p_tree p)"
  obtains (cached) c where "seen p (adm_key r) = Some c" "\<not> expired (RecordedAt c) (adm_now r)"
      "submit_locked io r p = (Ok (c, False), p)"
  | (fresh) "\<forall>c. seen p (adm_key r) = Some c \<longrightarrow> expired (RecordedAt c) (adm_now r)"
      "submit_locked io r p = (Ok (ev, True), broadcast ev
        (p\<lparr>p_tree := (p_tree p)\<lparr>t_leaves := t_leaves (p_tree p) @ [HashLeaf (leaf_payload r)]\<rparr>,
          events := events p @ [ev], seen := (seen p)(adm_key r \<mapsto> ev)\<rparr>))"
proof (cases "\<exists>c. seen p (adm_key r) = Some c \<and> \<not> expired (RecordedAt c) (adm_now r)")
  case True
  then show ?thesis using cached by (auto simp: submit_locked_def)
next
  case False
  have app: "Append io (p_tree p) (leaf_payload r) = (Ok (of_nat (length (t_leaves (p_tree p)))),
      (p_tree p)\<lparr>t_leaves := t_leaves (p_tree p) @ [HashLeaf (leaf_payload r)]\<rparr>)"
    using assms by (simp add: Append_memory)
  show ?thesis
  proof (rule fresh)
    show "\<forall>c. seen p (adm_key r) = Some c \<longrightarrow> expired (RecordedAt c) (adm_now r)"
      using False by blast
    have "append_fresh io r q = (Ok (ev, True), broadcast ev
        (p\<lparr>p_tree := (p_tree p)\<lparr>t_leaves := t_leaves (p_tree p) @ [HashLeaf (leaf_payload r)]\<rparr>,
          events := events p @ [ev], seen := (seen p)(adm_key r \<mapsto> ev)\<rparr>))"
      if "q = p \<or> q = p\<lparr>seen := (seen p)(adm_key r := None)\<rparr>" for q
    proof -
      from that app have "Append io (p_tree q) (leaf_payload r) =
          (Ok (of_nat (length (t_leaves (p_tree p)))),
           (p_tree p)\<lparr>t_leaves := t_leaves (p_tree p) @ [HashLeaf (leaf_payload r)]\<rparr>)"
        by auto
      from append_fresh_ok [OF this] that show ?thesis by (auto simp: Let_def ev_def)
    qed
    with False show "submit_locked io r p = (Ok (ev, True), broadcast ev
        (p\<lparr>p_tree := (p_tree p)\<lparr>t_leaves := t_leaves (p_tree p) @ [HashLeaf (leaf_payload r)]\<rparr>,
          events := events p @ [ev], seen := (seen p)(adm_key r \<mapsto> ev)\<rparr>))"
      by (auto simp: submit_locked_def split: option.split)
  qed
qed

lemma log_inv_broadcast: "log_inv vfy base p \<Longrightarrow> log_inv vfy base (broadcast ev p)"
  by (simp add: broadcast_def log_inv_subs)

lemma log_inv_locked:
  assumes "log_inv vfy base p" "admissible vfy r" "submit_locked io r p = (res, p')"
  shows "log_inv vfy base p'"
proof -
  have "t_file (p_tree p) = None" "\<not> t_closed (p_tree p)"
    using assms(1) by (simp_all add: log_inv_def)
  then show ?thesis
  proof (cases rule: submit_locked_memory [of p r io])
    case fresh
    then have p': "p' = broadcast
        (at_seq (appended_event r (of_nat (length (t_leaves (p_tree p))))) (length (events p)))
        (p\<lparr>p_tree := (p_tree p)\<lparr>t_leaves := t_leaves (p_tree p) @ [HashLeaf (leaf_payload r)]\<rparr>,
          events := events p @ [at_seq (appended_event r (of_nat (length (t_leaves (p_tree p)))))
            (length (events p))],
          seen := (seen p)(adm_key r \<mapsto> at_seq (appended_event r
            (of_nat (length (t_leaves (p_tree p))))) (length (events p)))\<rparr>)"
      using assms(3) by simp
    show ?thesis unfolding p'
      by (rule log_inv_broadcast [OF log_inv_append [OF assms(1,2) fresh(1)]])
  qed (use assms in simp)
qed

section \<open>The subscribers\<close>

lemma sub_inv_grow:
  assumes inv: "sub_inv p got from" and ev: "events q = events p @ [ev]"
    and cap: "subBuffer q = subBuffer p"
    and subs: "\<And>sid. subs q sid = map_option (offer (subBuffer p) ev) (subs p sid)"
  shows "sub_inv q got from"
  unfolding sub_inv_def
proof (intro allI impI)
  fix sid c assume "subs q sid = Some c"
  then obtain d where d: "subs p sid = Some d" "c = offer (subBuffer p) ev d" using subs by auto
  then have i: "length (buffered d) \<le> subBuffer p" "from sid \<le> length (events p)"
    "subseq (got sid @ buffered d) (drop (from sid) (events p))"
    using inv by (simp_all add: sub_inv_def)
  have "subseq ((got sid @ buffered d) @ [ev]) (drop (from sid) (events p) @ [ev])"
    using i(3) by (simp only: subseq_append)
  moreover have "subseq (got sid @ buffered d) (drop (from sid) (events p) @ [ev])"
    using list_emb_append_mono [OF i(3) list_emb_Nil [of "(=)" "[ev]"]] by simp
  ultimately show "length (buffered c) \<le> subBuffer q \<and> from sid \<le> length (events q) \<and>
      subseq (got sid @ buffered c) (drop (from sid) (events q))"
    using i d(2) by (simp add: cap ev offer_def)
qed

lemma sub_inv_publish: "sub_inv p got from \<Longrightarrow> sub_inv (publish ev p) got from"
  by (rule sub_inv_grow [where ev = "at_seq ev (length (events p))"])
    (simp_all add: publish_def record_event_eq)

lemma sub_inv_locked:
  assumes "sub_inv p got from" "log_inv vfy base p" "submit_locked io r p = (res, p')"
  shows "sub_inv p' got from"
proof -
  have "t_file (p_tree p) = None" "\<not> t_closed (p_tree p)"
    using assms(2) by (simp_all add: log_inv_def)
  then show ?thesis
  proof (cases rule: submit_locked_memory [of p r io])
    case fresh
    with assms(3) show ?thesis
      by (intro sub_inv_grow [OF assms(1), where ev = "at_seq (appended_event r
            (of_nat (length (t_leaves (p_tree p))))) (length (events p))"]) auto
  qed (use assms in simp)
qed

lemma sub_inv_subscribe:
  "sub_inv p got from \<Longrightarrow> Subscribe p = (sid, p') \<Longrightarrow>
    sub_inv p' (got(sid := [])) (from(sid := length (events p)))"
  by (auto simp: sub_inv_def Subscribe_def)

lemma sub_inv_cancel: "sub_inv p got from \<Longrightarrow> sub_inv (cancel sid p) got from"
  by (auto simp: sub_inv_def cancel_def)

lemma sub_inv_receive:
  "sub_inv p got from \<Longrightarrow> receive sid p = (Some ev, p') \<Longrightarrow>
    sub_inv p' (got(sid := got sid @ [ev])) from"
  by (fastforce simp: sub_inv_def receive_def split: option.splits list.splits)

section \<open>Every reachable state\<close>

lemma submit_verify_Deny: "submit_verify vfy get now now' act sig = Deny ev e \<Longrightarrow> Kind ev = KindRejected"
  by (auto simp: submit_verify_def split: option.splits if_splits go_result.splits)

lemma sys_inv_step:
  "sys_step vfy s s' \<Longrightarrow> sys_inv vfy base s \<Longrightarrow> sys_inv vfy base s'"
proof (induction rule: sys_step.induct)
  case (verify_admit s now now' act sig r)
  then show ?case by (simp add: sys_inv_def submit_verify_Admit)
next
  case (verify_deny s now now' act sig ev e)
  then show ?case by (auto simp: sys_inv_def dest: submit_verify_Deny)
next
  case (lock_append r s io res p)
  then show ?case
    using log_inv_locked [of vfy base "s_pipe s" r io res p]
      sub_inv_locked [of "s_pipe s" "s_got s" "s_from s" vfy base io r res p]
    by (auto simp: sys_inv_def dest: notin_set_remove1 in_set_remove1 [THEN iffD1, rotated])
next
  case (lock_deny ev s)
  then have "Kind ev = KindRejected" by (simp add: sys_inv_def)
  with lock_deny show ?case
    by (auto simp: sys_inv_def log_inv_publish sub_inv_publish dest: set_remove1_subset [THEN subsetD])
next
  case (external s now ag ty tg reason)
  then show ?case by (simp add: sys_inv_def RecordRejection_def log_inv_publish sub_inv_publish)
next
  case (subscribe s sid p)
  then show ?case
    using sub_inv_subscribe [of "s_pipe s" "s_got s" "s_from s" sid p]
    by (auto simp: sys_inv_def Subscribe_def log_inv_subs)
next
  case (cancelled s sid)
  then show ?case
    using sub_inv_cancel [of "s_pipe s" "s_got s" "s_from s" sid]
    by (auto simp: sys_inv_def cancel_def log_inv_subs)
next
  case (received sid s ev p)
  have "log_inv vfy base p"
    using received by (auto simp: sys_inv_def receive_def log_inv_subs split: option.splits list.splits)
  with received sub_inv_receive [of "s_pipe s" "s_got s" "s_from s" sid ev p] show ?case
    by (simp add: sys_inv_def)
qed (simp_all add: sys_inv_def)

lemma NewPipeline_fields:
  "p_tree (NewPipeline t opts) = t" "seen (NewPipeline t opts) = Map.empty"
  "events (NewPipeline t opts) = []" "subs (NewPipeline t opts) = Map.empty"
  "nextID (NewPipeline t opts) = 0" "1 \<le> subBuffer (NewPipeline t opts)"
proof -
  have "p_tree (fold apply_option opts p) = p_tree p \<and> seen (fold apply_option opts p) = seen p \<and>
      events (fold apply_option opts p) = events p \<and> subs (fold apply_option opts p) = subs p \<and>
      nextID (fold apply_option opts p) = nextID p \<and>
      (1 \<le> subBuffer p \<longrightarrow> 1 \<le> subBuffer (fold apply_option opts p))" for p
  proof (induction opts arbitrary: p)
    case (Cons opt opts)
    then show ?case by (cases opt) (auto simp: Suc_le_eq)
  qed simp
  then show "p_tree (NewPipeline t opts) = t" "seen (NewPipeline t opts) = Map.empty"
    "events (NewPipeline t opts) = []" "subs (NewPipeline t opts) = Map.empty"
    "nextID (NewPipeline t opts) = 0" "1 \<le> subBuffer (NewPipeline t opts)"
    by (simp_all add: NewPipeline_def)
qed

lemma sys_inv_initial:
  "initial t opts s \<Longrightarrow> t_file t = None \<Longrightarrow> \<not> t_closed t \<Longrightarrow> sys_inv vfy (t_leaves t) s"
  by (simp add: initial_def sys_inv_def log_inv_def sub_inv_def appended_def NewPipeline_fields)

lemma sys_inv_reachable:
  assumes "reachable vfy t s" "t_file t = None" "\<not> t_closed t"
  shows "sys_inv vfy (t_leaves t) s"
proof -
  from assms(1) obtain s0 opts where s0: "initial t opts s0" "(sys_step vfy)\<^sup>*\<^sup>* s0 s"
    by (auto simp: reachable_def)
  from s0(2) show ?thesis
    by (induction rule: rtranclp_induct) (use s0(1) assms sys_inv_initial sys_inv_step in blast)+
qed

end
