(* ===== verification/Auditlog_Claims.thy ===== *)
theory Auditlog_Claims
  imports Auditlog_Steps
begin

text \<open>
  The properties of the audit pipeline: replay protection under concurrent submissions, the
  correspondence of events and tree, what a subscriber can see, and what a single call does.
\<close>

section \<open>Facts about reachable states\<close>

lemma EventsSince_0: "EventsSince 0 p = appended p"
  by (simp add: EventsSince_def appended_def)

lemma reachable_inv:
  assumes "reachable vfy t s" "t_file t = None" "\<not> t_closed t"
  shows "log_inv vfy (t_leaves t) (s_pipe s)" "sub_inv (s_pipe s) (s_got s) (s_from s)"
  using sys_inv_reachable [OF assms] by (simp_all add: sys_inv_def)

lemma reachable_step: "reachable vfy t s \<Longrightarrow> sys_step vfy s s' \<Longrightarrow> reachable vfy t s'"
  unfolding reachable_def by (meson rtranclp.rtrancl_into_rtrancl)

lemma replay_spacing:
  assumes "reachable vfy t s" "t_file t = None" "\<not> t_closed t"
    and "i < j" "j < length (appended (s_pipe s))"
    and "ev_key (appended (s_pipe s) ! i) = ev_key (appended (s_pipe s) ! j)"
  shows "mono (RecordedAt (appended (s_pipe s) ! j)) - mono (RecordedAt (appended (s_pipe s) ! i))
    > 630000 * 1000000"
proof -
  have "sorted_wrt spaced (appended (s_pipe s))"
    using reachable_inv(1) [OF assms(1-3)] by (simp add: log_inv_def)
  from sorted_wrt_nth_less [OF this assms(4,5)] assms(6) show ?thesis
    by (simp add: spaced_def expired_iff)
qed

text \<open>A signed 64-bit difference is the mathematical one up to a multiple of \<open>2 ^ 64\<close>.\<close>

lemma sint_difference:
  obtains k where "sint (word_of_int x - w :: i64) = x - sint w + k * 2 ^ 64"
proof -
  let ?d = "sint (word_of_int x - w :: i64)"
  have "word_of_int ?d = (word_of_int (x - sint w) :: i64)"
    by (simp add: wi_hom_syms)
  then have "take_bit LENGTH(64) ?d = take_bit LENGTH(64) (x - sint w)"
    by (simp only: word_of_int_eq_iff)
  then have "?d mod 2 ^ 64 = (x - sint w) mod 2 ^ 64" by (simp only: take_bit_eq_mod) simp
  then have "2 ^ 64 dvd ?d - (x - sint w)" by (simp add: mod_eq_dvd_iff)
  then obtain k where "?d - (x - sint w) = 2 ^ 64 * k" by (elim dvdE)
  then show thesis using that [of k] by (simp add: algebra_simps)
qed

text \<open>Two instants at which one timestamp passes the skew check are at most a minute apart on the wall clock.\<close>

lemma skew_window:
  assumes "\<not> skewed u a" "\<not> skewed v a"
    and "0 \<le> wall u" "wall u < 2 ^ 62 * 1000000" "0 \<le> wall v" "wall v < 2 ^ 62 * 1000000"
  shows "wall v - wall u \<le> 60001 * 1000000"
proof -
  let ?m = "wall u div 1000000" and ?n = "wall v div 1000000" and ?T = "sint (TimestampMs a)"
  obtain k where k: "sint (UnixMilli u - TimestampMs a) = ?m - ?T + k * 2 ^ 64"
    unfolding UnixMilli_def by (rule sint_difference)
  obtain l where l: "sint (UnixMilli v - TimestampMs a) = ?n - ?T + l * 2 ^ 64"
    unfolding UnixMilli_def by (rule sint_difference)
  define e f where "e = ?m - ?T + k * 2 ^ 64" and "f = ?n - ?T + l * 2 ^ 64"
  have ef: "\<bar>e\<bar> \<le> 30000 \<or> e = - (2 ^ 63)" "\<bar>f\<bar> \<le> 30000 \<or> f = - (2 ^ 63)"
    using assms(1,2) k l by (simp_all add: not_skewed_iff e_def f_def)
  have mn: "0 \<le> ?m" "?m < 2 ^ 62" "0 \<le> ?n" "?n < 2 ^ 62" using assms(3-6) by auto
  have diff: "?n - ?m = f - e + (k - l) * 2 ^ 64" by (simp add: e_def f_def algebra_simps)
  consider "k - l = 0" | "k - l \<le> - 1" | "1 \<le> k - l" by linarith
  then have "?n - ?m \<le> 60000"
  proof cases
    case 2
    then have "(k - l) * 2 ^ 64 \<le> - (2 ^ 64)" by simp
    with ef mn diff show ?thesis by auto
  next
    case 3
    then have "(k - l) * 2 ^ 64 \<ge> 2 ^ 64" by simp
    with ef mn diff show ?thesis by auto
  qed (use ef mn diff in auto)
  moreover have "wall v \<le> ?n * 1000000 + 999999" "?m * 1000000 \<le> wall u"
    using pos_mod_bound [of 1000000 "wall v"] pos_mod_sign [of 1000000 "wall u"]
      minus_mod_eq_mult_div [of "wall v" 1000000] minus_mod_eq_mult_div [of "wall u" 1000000]
    by linarith+
  ultimately show ?thesis by linarith
qed

section \<open>A sample run\<close>

text \<open>
  One agent and runs of two submissions with the same nonce, 700 seconds apart on the monotonic clock.  On the wall clock
  the second is 700 seconds later, too, or, when the clock has been set back in between, at the same time.
\<close>

definition sample_keys :: key_pair where
  "sample_keys = (replicate 32 7, replicate 64 7)"

definition sample_sig :: bytes where
  "sample_sig = replicate 32 7 @ replicate 32 0"

definition sample_read :: "int \<Rightarrow> int \<Rightarrow> admission" where
  "sample_read ms elapsed = \<lparr>adm_action = sample_action\<lparr>TimestampMs := word_of_int ms\<rparr>, adm_sig = sample_sig,
     adm_pub = fst sample_keys,
     adm_canon = (case Canonical (sample_action\<lparr>TimestampMs := word_of_int ms\<rparr>) of Ok m \<Rightarrow> m | _ \<Rightarrow> []),
     adm_now = \<lparr>wall = ms * 1000000, mono = elapsed * 1000000\<rparr>\<rparr>"

abbreviation sample_at :: "int \<Rightarrow> admission" where
  "sample_at ms \<equiv> sample_read ms ms"

lemma sample_at_admissible: "admissible toy_verify (sample_read ms elapsed)"
proof -
  let ?a = "sample_action\<lparr>TimestampMs := word_of_int ms\<rparr>"
  have v: "Validate ?a = None" using sample_valid(1) by (simp add: Validate_None_iff)
  have "\<not> skewed \<lparr>wall = ms * 1000000, mono = elapsed * 1000000\<rparr> ?a" by (simp add: not_skewed_iff UnixMilli_def)
  moreover obtain m where "Canonical ?a = Ok m" using Canonical_valid [OF v] by blast
  ultimately show ?thesis
    using v by (simp add: admissible_def sample_read_def toy_verify_def sample_sig_def sample_keys_def)
qed

text \<open>A submission is two steps, when the agent's key is in the store.\<close>

lemma reachable_submit:
  assumes "reachable vfy t s" "admissible vfy r"
    and "Mapping.lookup (s_store s) (AgentID (adm_action r)) = Some (adm_pub r, priv)"
    and "s_ready s = []"
  shows "reachable vfy t (s\<lparr>s_pipe := snd (submit_locked io r (s_pipe s))\<rparr>)"
proof -
  have "submit_verify vfy (Memory_Get (s_store s)) (adm_now r) (adm_now r) (Some (adm_action r)) (adm_sig r)
      = Admit r"
    using assms(2,3) by (simp add: submit_verify_Admit Memory_Get_def)
  from reachable_step [OF assms(1) sys_step.verify_admit [OF this]]
  have 1: "reachable vfy t (s\<lparr>s_ready := [r]\<rparr>)" using assms(4) by simp
  have "sys_step vfy (s\<lparr>s_ready := [r]\<rparr>)
      (s\<lparr>s_ready := [r], s_pipe := snd (submit_locked io r (s_pipe s)), s_ready := []\<rparr>)"
    using sys_step.lock_append [of r "s\<lparr>s_ready := [r]\<rparr>" io "fst (submit_locked io r (s_pipe s))"
        "snd (submit_locked io r (s_pipe s))" vfy]
    by simp
  from reachable_step [OF 1 this] assms(4) show ?thesis
    by (metis (no_types, lifting) sys.surjective sys.update_convs(1,3))
qed

definition sample_start :: sys where
  "sample_start = \<lparr>s_pipe = NewPipeline New [], s_store = Mapping.update ''bot-1'' sample_keys Mapping.empty,
     s_ready = [], s_denied = [], s_got = (\<lambda>_. []), s_from = (\<lambda>_. 0)\<rparr>"

definition sample_run :: "int \<Rightarrow> int \<Rightarrow> sys" where
  "sample_run ms elapsed = (let s1 = sample_start\<lparr>s_pipe := snd (submit_locked (WriteOk, SyncOk)
      (sample_at 1700000000000) (s_pipe sample_start))\<rparr>
    in s1\<lparr>s_pipe := snd (submit_locked (WriteOk, SyncOk) (sample_read ms elapsed) (s_pipe s1))\<rparr>)"

abbreviation sample_end :: sys where
  "sample_end \<equiv> sample_run 1700000700000 1700000700000"

abbreviation set_back :: sys where
  "set_back \<equiv> sample_run 1700000000000 1700000700000"

lemma memory_New [simp]: "t_file New = None" "\<not> t_closed New" "t_leaves New = []"
  by (simp_all add: New_def)

lemma sample_key [simp]: "adm_key (sample_read ms elapsed) = ''bot-1|'' @ Nonce sample_action"
  and sample_now [simp]: "adm_now (sample_read ms elapsed) = \<lparr>wall = ms * 1000000, mono = elapsed * 1000000\<rparr>"
  by (simp_all add: adm_key_def sample_read_def replayKey_def sample_action_def)

lemma sample_run_reachable: "reachable toy_verify New (sample_run ms elapsed)"
proof -
  have "reachable toy_verify New sample_start"
    unfolding reachable_def initial_def
    by (intro exI [of _ sample_start] exI [of _ "[]"]) (simp add: sample_start_def)
  moreover have "Mapping.lookup (s_store sample_start) (AgentID (adm_action (sample_read ms elapsed)))
      = Some (adm_pub (sample_read ms elapsed), snd sample_keys)" for ms elapsed
    by (simp add: sample_start_def sample_read_def sample_action_def)
  ultimately show ?thesis
    unfolding sample_run_def Let_def
    by (intro reachable_submit [OF _ sample_at_admissible, where priv = "snd sample_keys"])
      (simp_all add: sample_start_def)
qed

lemma sample_run_appended:
  assumes "1700000630000 < elapsed"
  shows "\<exists>e f. appended (s_pipe (sample_run ms elapsed)) = [e, f] \<and> events (s_pipe (sample_run ms elapsed)) = [e, f] \<and>
    ev_Action e = Some (sample_action\<lparr>TimestampMs := word_of_int 1700000000000\<rparr>) \<and>
    ev_Action f = Some (sample_action\<lparr>TimestampMs := word_of_int ms\<rparr>) \<and>
    RecordedAt e = \<lparr>wall = 1700000000000 * 1000000, mono = 1700000000000 * 1000000\<rparr> \<and>
    RecordedAt f = \<lparr>wall = ms * 1000000, mono = elapsed * 1000000\<rparr>"
proof -
  let ?r = "sample_at 1700000000000" and ?q = "sample_read ms elapsed"
  let ?p = "NewPipeline New []"
  obtain e p1 where 1: "submit_locked (WriteOk, SyncOk) ?r ?p = (Ok (e, True), p1)"
    "events p1 = [e]" "seen p1 = [adm_key ?r \<mapsto> e]" "t_file (p_tree p1) = None" "\<not> t_closed (p_tree p1)"
    "e = at_seq (appended_event ?r 0) 0"
    by (rule submit_locked_memory [of ?p ?r "(WriteOk, SyncOk)"]) (auto simp: NewPipeline_fields)
  have key: "adm_key ?q = adm_key ?r" by simp
  have rec: "mono (RecordedAt e) = 1700000000000 * 1000000" using 1(6) by simp
  obtain f p2 where 2: "submit_locked (WriteOk, SyncOk) ?q p1 = (Ok (f, True), p2)"
    "events p2 = [e, f]" "f = at_seq (appended_event ?q (of_nat (length (t_leaves (p_tree p1))))) 1"
  proof (rule submit_locked_memory [of p1 ?q "(WriteOk, SyncOk)"])
    fix c assume "seen p1 (adm_key ?q) = Some c" "\<not> expired (RecordedAt c) (adm_now ?q)"
    moreover have "seen p1 (adm_key ?q) = Some e" by (simp add: 1(3) key del: sample_key)
    ultimately show ?thesis using rec assms by (simp add: expired_iff)
  qed (use 1 that in auto)
  have "s_pipe (sample_run ms elapsed) = p2"
    using 1(1) 2(1) by (simp add: sample_run_def sample_start_def Let_def)
  with 1 2 show ?thesis by (simp add: appended_def sample_read_def)
qed

lemmas sample_end_appended = sample_run_appended [of 1700000700000 1700000700000, simplified]

lemma sample_end_events: "length (events (s_pipe sample_end)) \<le> 2"
  using sample_end_appended by auto

lemma submit_locked_nextID: "nextID (snd (submit_locked io r p)) = nextID p"
  by (auto simp: submit_locked_def append_fresh_def record_event_eq Let_def
      split: option.split prod.split go_result.split)

text \<open>Filtering by a counter that runs up is dropping a prefix.\<close>

lemma filter_positions:
  fixes f :: "'a \<Rightarrow> u64"
  assumes "map f xs = map of_nat [b..<b + length xs]" "b + length xs < 2 ^ 64"
  shows "[x \<leftarrow> xs. n \<le> f x] = drop (unat n - b) xs"
  using assms
proof (induction xs arbitrary: b)
  case (Cons x xs)
  have up: "[b..<b + length (x # xs)] = b # [Suc b..<Suc b + length xs]"
    by (simp add: upt_conv_Cons del: upt_Suc)
  have x: "f x = of_nat b" and tl: "map f xs = map of_nat [Suc b..<Suc b + length xs]"
    using Cons.prems(1) unfolding up by simp_all
  have ih: "[x \<leftarrow> xs. n \<le> f x] = drop (unat n - Suc b) xs"
    using Cons.IH [OF tl] Cons.prems(2) by simp
  have "unat (f x) = b" using x Cons.prems(2) by (simp add: unat_u64_of_nat)
  then show ?case
    using ih by (cases "b < unat n") (auto simp: word_le_nat_alt Suc_diff_Suc [symmetric] not_less)
qed simp

section \<open>Replay\<close>

text \<open>
  C1: replay protection under concurrency.  In every state that interleaved calls can reach, two
  events that \<open>EventsSince\<close> returns for one agent and one nonce were recorded more than the
  replay window of 630 seconds apart (on the monotonic clock, which the code compares), whatever the order in
  which concurrent calls got the lock, whatever their clock readings and however the wall clock was set.
\<close>

theorem replay_window_respected:
  assumes "reachable vfy t s" "t_file t = None" "\<not> t_closed t"
    and "i < j" "j < length (EventsSince 0 (s_pipe s))"
    and "ev_Action (EventsSince 0 (s_pipe s) ! i) = Some a"
    and "ev_Action (EventsSince 0 (s_pipe s) ! j) = Some b"
    and "AgentID a = AgentID b" "Nonce a = Nonce b"
  shows "mono (RecordedAt (EventsSince 0 (s_pipe s) ! j)) - mono (RecordedAt (EventsSince 0 (s_pipe s) ! i))
    > 630 * 1000000000"
proof -
  have "ev_key (appended (s_pipe s) ! i) = ev_key (appended (s_pipe s) ! j)"
    using assms(6-9) by (simp add: ev_key_def EventsSince_0)
  from replay_spacing [OF assms(1-4) _ this] assms(5) show ?thesis by (simp add: EventsSince_0)
qed

theorem replay_window_respected_witness:
  "mono (RecordedAt (EventsSince 0 (s_pipe sample_end) ! 1)) - mono (RecordedAt (EventsSince 0 (s_pipe sample_end) ! 0))
    > 630 * 1000000000"
proof -
  obtain e f where es: "EventsSince 0 (s_pipe sample_end) = [e, f]"
    "ev_Action e = Some (sample_action\<lparr>TimestampMs := word_of_int 1700000000000\<rparr>)"
    "ev_Action f = Some (sample_action\<lparr>TimestampMs := word_of_int 1700000700000\<rparr>)"
    using sample_end_appended by (auto simp: EventsSince_0)
  show ?thesis
    by (rule replay_window_respected [OF sample_run_reachable, where
          a = "sample_action\<lparr>TimestampMs := word_of_int 1700000000000\<rparr>" and
          b = "sample_action\<lparr>TimestampMs := word_of_int 1700000700000\<rparr>"]) (simp_all add: es)
qed

lemma appended_from:
  assumes "reachable vfy t s" "t_file t = None" "\<not> t_closed t" "e \<in> set (appended (s_pipe s))"
  obtains r where "admissible vfy r" "ev_Action e = Some (adm_action r)" "RecordedAt e = adm_now r"
proof -
  from assms have "from_admission vfy e"
    using reachable_inv(1) [OF assms(1-3)] by (simp add: log_inv_def)
  then obtain r i n where "admissible vfy r" "e = at_seq (appended_event r i) n"
    by (auto simp: from_admission_def)
  with that [of r] show thesis by simp
qed

text \<open>
  C2: one signed action enters the tree twice only when the wall clock is set back.  The skew check, on the
  wall clock, lets a timestamp in for one minute; the replay cache, on the monotonic clock, remembers it for 630
  seconds.  So if an action (the same signed bytes) was appended at two positions, then between the two
  the wall clock fell back against the monotonic one by more than 569.999 seconds, whatever the interleaving; while it is never set
  back that far, every signed action is appended at most once in the life of the pipeline.  (The wall clock reads a time
  between 1970 and the year 146 million.)  The witness is a run in which the clock was set back by 700
  seconds and the action really is in the tree twice.
\<close>

theorem repeated_action_needs_setback:
  assumes "reachable vfy t s" "t_file t = None" "\<not> t_closed t"
    and "i < j" "j < length (EventsSince 0 (s_pipe s))"
    and "e = EventsSince 0 (s_pipe s) ! i" "f = EventsSince 0 (s_pipe s) ! j" "ev_Action e = ev_Action f"
    and "0 \<le> wall (RecordedAt e)" "wall (RecordedAt e) < 2 ^ 62 * 1000000"
    and "0 \<le> wall (RecordedAt f)" "wall (RecordedAt f) < 2 ^ 62 * 1000000"
  shows "(mono (RecordedAt f) - mono (RecordedAt e)) - (wall (RecordedAt f) - wall (RecordedAt e))
    > 569999 * 1000000"
proof -
  have in_set: "e \<in> set (appended (s_pipe s))" "f \<in> set (appended (s_pipe s))"
    using assms(4-7) by (simp_all add: EventsSince_0)
  obtain r where r: "admissible vfy r" "ev_Action e = Some (adm_action r)" "RecordedAt e = adm_now r"
    by (rule appended_from [OF assms(1-3) in_set(1)])
  obtain q where q: "admissible vfy q" "ev_Action f = Some (adm_action q)" "RecordedAt f = adm_now q"
    by (rule appended_from [OF assms(1-3) in_set(2)])
  have "wall (adm_now q) - wall (adm_now r) \<le> 60001 * 1000000"
    by (rule skew_window [of _ "adm_action r"]) (use assms(8-12) r q in \<open>simp_all add: admissible_def\<close>)
  moreover have "ev_key e = ev_key f" using assms(8) by (simp add: ev_key_def)
  then have "mono (RecordedAt f) - mono (RecordedAt e) > 630000 * 1000000"
    using replay_spacing [OF assms(1-4)] assms(5-7) by (simp add: EventsSince_0)
  ultimately show ?thesis using r(3) q(3) by simp
qed

theorem repeated_action_needs_setback_witness:
  "\<exists>e f. EventsSince 0 (s_pipe set_back) = [e, f] \<and> ev_Action e = ev_Action f \<and>
    (mono (RecordedAt f) - mono (RecordedAt e)) - (wall (RecordedAt f) - wall (RecordedAt e)) > 569999 * 1000000"
proof -
  obtain e f where es: "EventsSince 0 (s_pipe set_back) = [e, f]" "ev_Action e = ev_Action f"
    "wall (RecordedAt e) = 1700000000000 * 1000000" "wall (RecordedAt f) = 1700000000000 * 1000000"
    using sample_run_appended [of 1700000700000 1700000000000] by (auto simp: EventsSince_0)
  have "(mono (RecordedAt f) - mono (RecordedAt e)) - (wall (RecordedAt f) - wall (RecordedAt e)) > 569999 * 1000000"
    by (rule repeated_action_needs_setback [OF sample_run_reachable [of 1700000000000 1700000700000],
          where i = 0 and j = 1]) (simp_all add: es)
  with es show ?thesis by blast
qed

section \<open>The log and the tree\<close>

text \<open>
  C8: the event log is the tree.  In every reachable state the leaves are those the tree started
  with followed by the leaf hashes of the appended events in order, each event's \<open>LeafIndex\<close> is its
  position in the tree and its \<open>Seq\<close> its position in the feed.
\<close>

theorem events_match_tree:
  assumes "reachable vfy t s" "t_file t = None" "\<not> t_closed t"
  shows "t_leaves (p_tree (s_pipe s)) = t_leaves t @ map LeafHash (EventsSince 0 (s_pipe s)) \<and>
    map LeafIndex (EventsSince 0 (s_pipe s)) =
      map of_nat [length (t_leaves t)..<length (t_leaves (p_tree (s_pipe s)))] \<and>
    map Seq (events (s_pipe s)) = map of_nat [0..<length (events (s_pipe s))]"
  using reachable_inv(1) [OF assms] by (simp add: log_inv_def EventsSince_0)

theorem events_match_tree_witness:
  "t_leaves (p_tree (s_pipe sample_end)) = map LeafHash (EventsSince 0 (s_pipe sample_end))"
  using events_match_tree [OF sample_run_reachable] by simp

text \<open>
  C9: only verified actions are in the tree.  Every appended event of a reachable state has a
  valid action whose canonical bytes the signature verifies under a 32-byte public key, a
  timestamp within the skew of its recording time (or exactly \<open>2 ^ 63\<close> milliseconds away, where
  the 64-bit subtraction has no absolute value), and the leaf hash of canonical bytes and signature.
\<close>

theorem only_verified_appended:
  assumes "reachable vfy t s" "t_file t = None" "\<not> t_closed t" "e \<in> set (EventsSince 0 (s_pipe s))"
  shows "\<exists>a canon. ev_Action e = Some a \<and> Validate a = None \<and> Canonical a = Ok canon \<and>
    length (PublicKey e) = 32 \<and> vfy (PublicKey e) (bytes_of canon) (Signature e) \<and>
    LeafHash e = HashLeaf (bytes_of canon @ Signature e) \<and>
    (\<bar>sint (UnixMilli (RecordedAt e) - TimestampMs a)\<bar> \<le> 30000 \<or>
     sint (UnixMilli (RecordedAt e) - TimestampMs a) = - (2 ^ 63))"
proof -
  have "from_admission vfy e"
    using reachable_inv(1) [OF assms(1-3)] assms(4) by (simp add: log_inv_def EventsSince_0)
  then obtain r n i where r: "admissible vfy r" "e = at_seq (appended_event r i) n"
    by (auto simp: from_admission_def)
  then have "PublicKey e = adm_pub r" "Signature e = adm_sig r" by (simp_all add: appended_event_def)
  with r show ?thesis by (auto simp: admissible_def leaf_payload_def not_skewed_iff)
qed

theorem only_verified_appended_witness:
  "\<exists>e a. e \<in> set (EventsSince 0 (s_pipe sample_end)) \<and> ev_Action e = Some a \<and> Validate a = None"
proof -
  obtain e f where es: "EventsSince 0 (s_pipe sample_end) = [e, f]"
    using sample_end_appended by (auto simp: EventsSince_0)
  have "\<exists>a canon. ev_Action e = Some a \<and> Validate a = None \<and> Canonical a = Ok canon \<and>
    length (PublicKey e) = 32 \<and> toy_verify (PublicKey e) (bytes_of canon) (Signature e) \<and>
    LeafHash e = HashLeaf (bytes_of canon @ Signature e) \<and>
    (\<bar>sint (UnixMilli (RecordedAt e) - TimestampMs a)\<bar> \<le> 30000 \<or>
     sint (UnixMilli (RecordedAt e) - TimestampMs a) = - (2 ^ 63))"
    by (rule only_verified_appended [OF sample_run_reachable [of 1700000700000 1700000700000]]) (simp_all add: es)
  then show ?thesis using es by auto
qed

section \<open>What subscribers and readers see\<close>

text \<open>
  C29: a subscriber never blocks the pipeline and never sees an event out of order.  In every
  reachable state the channel of a subscriber holds at most \<open>subBuffer\<close> events, and what it has
  received and still has buffered is a subsequence of the events recorded since it subscribed.
\<close>

theorem subscriber_sees_subsequence:
  assumes "reachable vfy t s" "t_file t = None" "\<not> t_closed t" "subs (s_pipe s) sid = Some c"
  shows "length (buffered c) \<le> subBuffer (s_pipe s) \<and>
    subseq (s_got s sid @ buffered c) (drop (s_from s sid) (events (s_pipe s)))"
  using reachable_inv(2) [OF assms(1-3)] assms(4) by (simp add: sub_inv_def)

theorem subscriber_sees_subsequence_witness:
  "\<exists>s. reachable toy_verify New s \<and> (\<exists>c. subs (s_pipe s) 0 = Some c \<and>
    length (buffered c) \<le> subBuffer (s_pipe s))"
proof -
  let ?s = "sample_end\<lparr>s_pipe := snd (Subscribe (s_pipe sample_end)),
    s_got := (s_got sample_end)(nextID (s_pipe sample_end) := []),
    s_from := (s_from sample_end)(nextID (s_pipe sample_end) := length (events (s_pipe sample_end)))\<rparr>"
  have "sys_step toy_verify sample_end ?s"
    by (rule sys_step.subscribe) (simp add: Subscribe_def)
  from reachable_step [OF sample_run_reachable this] have r: "reachable toy_verify New ?s" .
  have "nextID (s_pipe sample_end) = 0"
    by (simp add: sample_run_def sample_start_def Let_def submit_locked_nextID NewPipeline_fields)
  then have "subs (s_pipe ?s) 0 = Some \<lparr>buffered = [], closed = False\<rparr>"
    by (simp add: Subscribe_def)
  with subscriber_sees_subsequence [OF r _ _ this] r show ?thesis by auto
qed

text \<open>
  The two readers page through the log without gaps.  In every reachable state with fewer than
  \<open>2 ^ 64\<close> events and leaves, \<open>AllEventsSince\<close> returns exactly the events with \<open>Seq\<close> at least the given one, and
  \<open>EventsSince\<close> the appended events from that leaf on, each in order: reading in pages gives the
  same list as reading once.
\<close>

lemma readers_page_without_gaps:
  assumes "reachable vfy t s" "t_file t = None" "\<not> t_closed t"
    and "length (events (s_pipe s)) < 2 ^ 64" "length (t_leaves (p_tree (s_pipe s))) < 2 ^ 64"
  shows "AllEventsSince n (s_pipe s) = [e \<leftarrow> events (s_pipe s). n \<le> Seq e] \<and>
    AllEventsSince 0 (s_pipe s) = take (unat n) (events (s_pipe s)) @ AllEventsSince n (s_pipe s) \<and>
    EventsSince n (s_pipe s) =
      drop (unat n - length (t_leaves t)) (EventsSince 0 (s_pipe s))"
proof -
  let ?p = "s_pipe s" and ?b = "length (t_leaves t)"
  have inv: "map Seq (events ?p) = map of_nat [0..<length (events ?p)]"
    "map LeafIndex (appended ?p) = map of_nat [?b..<?b + length (appended ?p)]"
    "length (t_leaves (p_tree ?p)) = ?b + length (appended ?p)"
    using reachable_inv(1) [OF assms(1-3)] by (simp_all add: log_inv_def)
  have all: "AllEventsSince n ?p = drop (unat n) (events ?p)" for n
    using assms(4) by (auto simp: AllEventsSince_def word_le_nat_alt unat_u64_of_nat)
  have "drop (unat n) (events ?p) = [e \<leftarrow> events ?p. n \<le> Seq e]"
    using filter_positions [of Seq "events ?p" 0 n] inv(1) assms(4) by (simp add: word_le_nat_alt)
  moreover have "[e \<leftarrow> appended ?p. n \<le> LeafIndex e] = drop (unat n - ?b) (appended ?p)"
    using filter_positions [of LeafIndex "appended ?p" ?b n] inv(2,3) assms(5) by simp
  moreover have "EventsSince n ?p = [e \<leftarrow> appended ?p. n \<le> LeafIndex e]"
    by (simp add: EventsSince_def appended_def filter_filter not_less conj_commute)
  moreover have "events ?p = take (unat n) (events ?p) @ drop (unat n) (events ?p)" by simp
  ultimately show ?thesis unfolding all EventsSince_0 by simp
qed

section \<open>A single call\<close>

text \<open>The in-memory store has no error that \<open>Submit\<close> passes on.\<close>

lemma append_fresh_no_store_error: "append_fresh io r p \<noteq> (Err (SubmitStore x), p')"
  by (auto simp: append_fresh_def record_event_eq Let_def split: prod.splits go_result.splits)

lemma Submit_memory_error: "Submit vfy (Memory_Get m) now now' io act sig p = (Err e, p') \<Longrightarrow> e \<noteq> SubmitStore x"
proof (cases "submit_verify vfy (Memory_Get m) now now' act sig")
  case (Admit r)
  then show "Submit vfy (Memory_Get m) now now' io act sig p = (Err e, p') \<Longrightarrow> e \<noteq> SubmitStore x"
    by (cases io) (auto simp: Submit_def submit_locked_def append_fresh_no_store_error
        split: option.splits if_splits)
qed (auto simp: Submit_def submit_verify_def Memory_Get_def
    split: option.splits if_splits go_result.splits prod.splits)

lemma Submit_spec:
  "case Submit vfy (Memory_Get m) now now' io act sig p of
     (Panic, p') \<Rightarrow> False
   | (Err e, p') \<Rightarrow> t_leaves (p_tree p') = t_leaves (p_tree p) \<and>
       [ev \<leftarrow> events p'. Kind ev = KindAppended] = [ev \<leftarrow> events p. Kind ev = KindAppended] \<and>
       length (events p') \<le> Suc (length (events p))
   | (Ok (ev, False), p') \<Rightarrow> p' = p \<and> (\<exists>k. seen p k = Some ev)
   | (Ok (ev, True), p') \<Rightarrow>
       (\<exists>a canon. act = Some a \<and> Canonical a = Ok canon \<and>
         LeafHash ev = HashLeaf (bytes_of canon @ sig) \<and> ev_Action ev = Some a \<and> RecordedAt ev = now) \<and>
       t_leaves (p_tree p') = t_leaves (p_tree p) @ [LeafHash ev] \<and>
       LeafIndex ev = of_nat (length (t_leaves (p_tree p))) \<and>
       events p' = events p @ [ev] \<and> Seq ev = of_nat (length (events p))"
proof (cases "submit_verify vfy (Memory_Get m) now now' act sig")
  case (Deny ev e)
  then show ?thesis by (simp add: Submit_def submit_verify_Deny [OF Deny])
next
  case VerdictPanic
  then have False
    by (auto simp: submit_verify_def Memory_Get_def
        split: option.splits if_splits go_result.splits prod.splits)
  then show ?thesis ..
next
  case (Admit r)
  then have r: "act = Some (adm_action r)" "sig = adm_sig r" "now = adm_now r"
    "Canonical (adm_action r) = Ok (adm_canon r)"
    by (simp_all add: submit_verify_Admit admissible_def)
  have fresh: "case append_fresh io r q of
       (Panic, p') \<Rightarrow> False
     | (Err e, p') \<Rightarrow> t_leaves (p_tree p') = t_leaves (p_tree q) \<and> events p' = events q
     | (Ok (ev, b), p') \<Rightarrow> b \<and> LeafHash ev = HashLeaf (bytes_of (adm_canon r) @ sig) \<and>
         ev_Action ev = Some (adm_action r) \<and> RecordedAt ev = now \<and>
         t_leaves (p_tree p') = t_leaves (p_tree q) @ [LeafHash ev] \<and>
         LeafIndex ev = of_nat (length (t_leaves (p_tree q))) \<and>
         events p' = events q @ [ev] \<and> Seq ev = of_nat (length (events q))" for q
    by (rule tree_log.append_cases [of io "p_tree q" "leaf_payload r"])
      (simp_all add: append_fresh_def record_event_eq Let_def r leaf_payload_def)
  have cases: "submit_locked io r p = append_fresh io r p \<or>
      (\<exists>c. seen p (adm_key r) = Some c \<and> submit_locked io r p = (Ok (c, False), p)) \<or>
      submit_locked io r p = append_fresh io r (p\<lparr>seen := (seen p)(adm_key r := None)\<rparr>)"
    by (auto simp: submit_locked_def split: option.split)
  have "Submit vfy (Memory_Get m) now now' io act sig p = submit_locked io r p"
    by (simp add: Submit_def Admit)
  with cases show ?thesis
    using fresh [of p] fresh [of "p\<lparr>seen := (seen p)(adm_key r := None)\<rparr>"] r
    by (elim disjE exE conjE) (auto split: prod.splits go_result.splits bool.splits)
qed (simp add: Submit_def)

text \<open>
  C14: what one call of \<open>Submit\<close> does, on every path.  It never panics; an error leaves the leaves
  and the appended events alone and adds at most one event; a cached answer changes nothing; a
  fresh one adds exactly one leaf and one event, the leaf being the hash of canonical bytes and
  signature.
\<close>

theorem submit_outcomes:
  "case Submit vfy (Memory_Get m) now now' io act sig p of
     (Panic, p') \<Rightarrow> False
   | (Err e, p') \<Rightarrow> t_leaves (p_tree p') = t_leaves (p_tree p) \<and>
       [ev \<leftarrow> events p'. Kind ev = KindAppended] = [ev \<leftarrow> events p. Kind ev = KindAppended] \<and>
       length (events p') \<le> Suc (length (events p))
   | (Ok (ev, False), p') \<Rightarrow> p' = p \<and> (\<exists>k. seen p k = Some ev)
   | (Ok (ev, True), p') \<Rightarrow>
       (\<exists>a canon. act = Some a \<and> Canonical a = Ok canon \<and>
         LeafHash ev = HashLeaf (bytes_of canon @ sig) \<and> ev_Action ev = Some a \<and> RecordedAt ev = now) \<and>
       t_leaves (p_tree p') = t_leaves (p_tree p) @ [LeafHash ev] \<and>
       LeafIndex ev = of_nat (length (t_leaves (p_tree p))) \<and>
       events p' = events p @ [ev] \<and> Seq ev = of_nat (length (events p))"
  by (rule Submit_spec)

text \<open>
  C34: a used nonce is answered, not refused.  \<open>docs/schema.md\<close> says that a verifier MUST reject an action whose agent
  and nonce it has seen within the window; the code does not.  After a call of \<open>Submit\<close> that returned an event, a
  later call for the same agent and nonce whose own verification succeeds, within 630 seconds of that event on the
  monotonic clock, returns that event as a success (and a repeat) and changes nothing, whatever its action and
  signature: the log is protected, but a caller who sends a different action (as in the witness) gets no error, and
  an answer that describes the first one.
\<close>

theorem resubmission_idempotent:
  assumes "Submit vfy get now now' io (Some a) sig p = (Ok (ev, b), p1)"
    and "submit_verify vfy get2 now2 now2' (Some a2) sig2 = Admit r2"
    and "AgentID a2 = AgentID a" "Nonce a2 = Nonce a"
    and "mono now2 - mono (RecordedAt ev) \<le> 630 * 1000000000"
  shows "Submit vfy get2 now2 now2' io2 (Some a2) sig2 p1 = (Ok (ev, False), p1)"
proof -
  obtain r where r: "submit_verify vfy get now now' (Some a) sig = Admit r"
    "submit_locked io r p = (Ok (ev, b), p1)"
    using assms(1) by (auto simp: Submit_def split: verdict.splits)
  then have key: "adm_key r = replayKey (AgentID a) (Nonce a)"
    by (auto simp: submit_verify_Admit adm_key_def)
  have "seen p1 (adm_key r) = Some ev"
    using r(2) by (auto simp: submit_locked_def append_fresh_def record_event_eq Let_def
        split: option.splits if_splits prod.splits go_result.splits)
  moreover have "adm_key r2 = adm_key r" "adm_now r2 = now2"
    using assms(2-4) key by (auto simp: submit_verify_Admit adm_key_def)
  moreover have "\<not> expired (RecordedAt ev) now2" using assms(5) by (simp add: expired_iff)
  ultimately show ?thesis using assms(2) by (simp add: Submit_def submit_locked_def)
qed

theorem resubmission_idempotent_witness:
  "\<exists>ev p1. let get = Memory_Get (s_store sample_start); a = adm_action (sample_at 1700000000000);
      now = adm_now (sample_at 1700000000000); a2 = a\<lparr>Target := ''0xdef''\<rparr> in
    Submit toy_verify get now now (WriteOk, SyncOk) (Some a) sample_sig (NewPipeline New []) = (Ok (ev, True), p1) \<and>
    Submit toy_verify get now now (WriteOk, SyncOk) (Some a2) sample_sig p1 = (Ok (ev, False), p1) \<and>
    ev_Action ev = Some a \<and> a \<noteq> a2"
proof -
  let ?r = "sample_at 1700000000000"
  let ?a = "adm_action ?r" and ?now = "adm_now ?r"
  let ?a2 = "?a\<lparr>Target := ''0xdef''\<rparr>"
  let ?get = "Memory_Get (s_store sample_start)" and ?p = "NewPipeline New []"
  have get: "?get (AgentID ?a) = Ok (adm_pub ?r, snd sample_keys)"
    by (simp add: sample_start_def Memory_Get_def sample_read_def sample_action_def)
  have adm: "submit_verify toy_verify ?get ?now ?now (Some ?a) sample_sig = Admit ?r"
    using sample_at_admissible [of 1700000000000 1700000000000] get
    by (simp add: submit_verify_Admit) (simp add: sample_read_def)
  have v2: "Validate ?a2 = None"
    using sample_valid(1) by (simp add: Validate_None_iff sample_read_def)
  then obtain canon2 where c2: "Canonical ?a2 = Ok canon2" using Canonical_valid by blast
  let ?r2 = "?r\<lparr>adm_action := ?a2, adm_canon := canon2\<rparr>"
  have "admissible toy_verify ?r2"
    using sample_at_admissible [of 1700000000000 1700000000000] v2 c2
    by (simp add: admissible_def skewed_def toy_verify_def)
  then have adm2: "submit_verify toy_verify ?get ?now ?now (Some ?a2) sample_sig = Admit ?r2"
    using get by (simp add: submit_verify_Admit) (simp add: sample_read_def)
  obtain ev p1 where 1: "submit_locked (WriteOk, SyncOk) ?r ?p = (Ok (ev, True), p1)"
    "ev = at_seq (appended_event ?r 0) 0"
    by (rule submit_locked_memory [of ?p ?r "(WriteOk, SyncOk)"]) (auto simp: NewPipeline_fields)
  have 2: "Submit toy_verify ?get ?now ?now (WriteOk, SyncOk) (Some ?a) sample_sig ?p = (Ok (ev, True), p1)"
    using adm 1(1) by (simp add: Submit_def)
  have "Submit toy_verify ?get ?now ?now (WriteOk, SyncOk) (Some ?a2) sample_sig p1 = (Ok (ev, False), p1)"
    by (rule resubmission_idempotent [OF 2 adm2]) (simp_all add: 1(2))
  moreover have "ev_Action ev = Some ?a" using 1(2) by simp
  moreover have "?a \<noteq> ?a2"
  proof
    assume "?a = ?a2"
    then have "Target ?a = Target ?a2" by (rule arg_cong)
    then show False by (simp add: sample_read_def sample_action_def)
  qed
  ultimately show ?thesis using 2 unfolding Let_def by blast
qed

text \<open>
  What the skew check lets through.  It accepts a timestamp exactly when the 64-bit difference
  to the clock is at most 30 seconds in absolute value, or is the one value that has no absolute
  value: a timestamp \<open>2 ^ 63\<close> milliseconds (292 million years) before the clock also passes.
\<close>

lemma skew_check_exact:
  "(skewed now a \<longleftrightarrow> \<not> (\<bar>sint (UnixMilli now - TimestampMs a)\<bar> \<le> 30000 \<or>
      sint (UnixMilli now - TimestampMs a) = - (2 ^ 63))) \<and>
   \<not> skewed now (a\<lparr>TimestampMs := UnixMilli now + push_bit 63 1\<rparr>)"
proof
  show "skewed now a \<longleftrightarrow> \<not> (\<bar>sint (UnixMilli now - TimestampMs a)\<bar> \<le> 30000 \<or>
      sint (UnixMilli now - TimestampMs a) = - (2 ^ 63))"
    using not_skewed_iff by blast
  have "UnixMilli now - (UnixMilli now + push_bit 63 1) = (- push_bit 63 1 :: i64)" by simp
  moreover have "sint (- push_bit 63 1 :: i64) = - (2 ^ 63)" by (simp add: push_bit_eq_mult sint_word_minus)
  ultimately show "\<not> skewed now (a\<lparr>TimestampMs := UnixMilli now + push_bit 63 1\<rparr>)"
    by (simp add: not_skewed_iff)
qed

end
