(* ===== verification/Auditlog_Http.thy ===== *)
theory Auditlog_Http
  imports Auditlog_Claims
begin

text \<open>
  The wire side of the audit log: \<open>Event.MarshalJSON\<close> of \<open>pipeline.go\<close> and package
  \<open>internal/auditlog/http\<close>, the append endpoint and the server-sent event stream.  A request
  body is what the JSON decoder made of it (\<open>None\<close>: it failed).
\<close>

section \<open>Events on the wire\<close>

datatype json = JNum u64 | JStr string | JAction "action option" | JTime int

text \<open>The local copy of hexadecimal encoding in \<open>pipeline.go\<close>.\<close>

definition pipeline_hexEncode :: "bytes \<Rightarrow> string" where
  "pipeline_hexEncode b =
    concat (map (\<lambda>v. [''0123456789abcdef'' ! unat (drop_bit 4 v), ''0123456789abcdef'' ! unat (v AND 0x0f)]) b)"

lemma pipeline_hexEncode_eq: "pipeline_hexEncode b = hexEncode b"
  by (induction b) (simp_all add: pipeline_hexEncode_def digit_char_def)

definition omitempty :: "string \<Rightarrow> string \<Rightarrow> (string \<times> json) list" where
  "omitempty name v = (if v = [] then [] else [(name, JStr v)])"

definition MarshalJSON :: "event \<Rightarrow> (string \<times> json) list" where
  "MarshalJSON e =
    (if Kind e = KindRejected then
       [(''seq'', JNum (Seq e)), (''kind'', JStr KindRejected)]
       @ (if ev_Action e = None then [] else [(''action'', JAction (ev_Action e))])
       @ omitempty ''agent_id'' (ev_AgentID e) @ omitempty ''action_type'' (ev_ActionType e)
       @ omitempty ''target'' (ev_Target e)
       @ [(''reason'', JStr (Reason e)), (''recorded_at'', JTime (wall (RecordedAt e)))]
     else
       [(''seq'', JNum (Seq e)), (''kind'', JStr (if Kind e = [] then KindAppended else Kind e)),
        (''leaf_index'', JNum (LeafIndex e)), (''leaf_hash'', JStr (pipeline_hexEncode (LeafHash e))),
        (''action'', JAction (ev_Action e)), (''signature'', JStr (pipeline_hexEncode (Signature e))),
        (''public_key'', JStr (pipeline_hexEncode (PublicKey e))), (''recorded_at'', JTime (wall (RecordedAt e)))])"

text \<open>The response of an append: the event's object with one more member.\<close>

definition append_response :: "event \<times> bool \<Rightarrow> (string \<times> json) list \<times> bool" where
  "append_response r = (MarshalJSON (fst r), \<not> snd r)"

section \<open>The append endpoint\<close>

record appendRequest =
  req_action :: "action option"
  req_signature :: string

text \<open>\<open>errors.Is\<close> against the sentinels, in the order of the switch.\<close>

definition is_invalid_signature :: "submit_error \<Rightarrow> bool" where
  "is_invalid_signature e = (e = SubmitSignature ErrInvalidSignature)"

fun action_cause :: "submit_error \<Rightarrow> action_error option" where
  "action_cause (SubmitInvalid e) = Some e"
| "action_cause (SubmitSignature (ErrAction e)) = Some e"
| "action_cause _ = None"

definition is_schema_version :: "submit_error \<Rightarrow> bool" where
  "is_schema_version e =
    (e = SubmitSchemaVersion \<or> (case action_cause e of Some (ErrSchemaVersion v) \<Rightarrow> True | _ \<Rightarrow> False))"

definition writePipelineError :: "submit_error \<Rightarrow> 'a http_reply" where
  "writePipelineError e =
    (if e = SubmitUnknownAgent then ErrorReply 404 ''unknown_agent''
     else if is_invalid_signature e then ErrorReply 401 ''invalid_signature''
     else if is_schema_version e then ErrorReply 422 ''schema_version''
     else if e = SubmitTimestampSkew then ErrorReply 422 ''timestamp_skew''
     else if action_cause e = Some ErrEmptyField \<or> action_cause e = Some ErrNonceShape
     then ErrorReply 400 ''invalid_action''
     else if e = SubmitStore ErrCanceled \<or> e = SubmitStore ErrDeadlineExceeded then ErrorReply 408 ''canceled''
     else ErrorReply 500 ''internal'')"

definition audit_append ::
  "ed_verify \<Rightarrow> (string \<Rightarrow> (keystore_error, key_pair) go_result) \<Rightarrow> instant \<Rightarrow> instant \<Rightarrow> leaf_io \<Rightarrow>
    appendRequest option \<Rightarrow> pipeline \<Rightarrow> ((string \<times> json) list \<times> bool) http_reply \<times> pipeline" where
  "audit_append vfy get now now' io body p =
    (case body of
       None \<Rightarrow> (ErrorReply 400 ''invalid_json'', p)
     | Some req \<Rightarrow>
        (if req_action req = None then (ErrorReply 400 ''missing_field'', p)
         else case hexDecode (req_signature req) of
           None \<Rightarrow> (ErrorReply 400 ''invalid_signature_hex'', p)
         | Some sig \<Rightarrow>
            (case Submit vfy get now now' io (req_action req) sig p of
               (Err e, p') \<Rightarrow> (writePipelineError e, p')
             | (Panic, p') \<Rightarrow> (Aborted, p')
             | (Ok r, p') \<Rightarrow> (Reply 200 (append_response r), p'))))"

section \<open>The event stream\<close>

fun sse_live :: "u64 option \<Rightarrow> event list \<Rightarrow> event list" where
  "sse_live lastSent [] = []"
| "sse_live lastSent (ev # evs) =
    (if (case lastSent of Some l \<Rightarrow> Seq ev \<le> l | None \<Rightarrow> False) then sse_live lastSent evs
     else ev # sse_live (Some (Seq ev)) evs)"

text \<open>The events written: the backlog, then what the channel yields.\<close>

definition stream_events :: "u64 \<Rightarrow> pipeline \<Rightarrow> event list \<Rightarrow> event list" where
  "stream_events since p live =
    (let backlog = AllEventsSince since p
     in backlog @ sse_live (if backlog = [] then None else Some (Seq (last backlog))) live)"

text \<open>
  The handler: \<open>can_flush\<close> says whether the connection can stream, \<open>writes\<close> how many events it
  takes before a write fails.
\<close>

definition audit_stream ::
  "bool \<Rightarrow> string \<Rightarrow> pipeline \<Rightarrow> event list \<Rightarrow> nat \<Rightarrow> event list http_reply" where
  "audit_stream can_flush since p live writes =
    (if \<not> can_flush then ErrorReply 500 ''no_flush''
     else case (if since = [] then Some 0 else ParseUint since 10) of
       None \<Rightarrow> ErrorReply 400 ''invalid_since''
     | Some n \<Rightarrow> Reply 200 (take writes (stream_events n p live)))"

section \<open>Streams in order\<close>

abbreviation in_order :: "event list \<Rightarrow> bool" where
  "in_order \<equiv> sorted_wrt (\<lambda>e e'. Seq e < Seq e')"

lemma sse_live_filter:
  "in_order evs \<Longrightarrow> sse_live (Some l) evs = [e \<leftarrow> evs. l < Seq e]"
proof (induction evs arbitrary: l)
  case (Cons e evs)
  show ?case
  proof (cases "Seq e \<le> l")
    case True
    with Cons show ?thesis by simp
  next
    case False
    have "[x \<leftarrow> evs. Seq e < Seq x] = evs" "[x \<leftarrow> evs. l < Seq x] = evs"
      using Cons.prems False by (auto simp: filter_id_conv not_le)
    with Cons False show ?thesis by simp
  qed
qed simp

lemma sse_live_None: "in_order evs \<Longrightarrow> sse_live None evs = evs"
proof (cases evs)
  case (Cons e rest)
  assume "in_order evs"
  then have "[x \<leftarrow> rest. Seq e < Seq x] = rest" "in_order rest" using Cons by (auto simp: filter_id_conv)
  with Cons show ?thesis by (simp add: sse_live_filter)
qed simp

lemma stream_in_order:
  assumes "in_order (AllEventsSince since p)" "in_order live"
  shows "in_order (stream_events since p live) \<and>
    set (stream_events since p live) \<subseteq> set (AllEventsSince since p) \<union> set live"
proof (cases "AllEventsSince since p = []")
  case True
  with assms show ?thesis by (simp add: stream_events_def sse_live_None Let_def)
next
  case False
  let ?b = "AllEventsSince since p"
  have top: "Seq e \<le> Seq (last ?b)" if "e \<in> set ?b" for e
  proof -
    have "?b = butlast ?b @ [last ?b]" using False by simp
    with assms(1) have "\<forall>x \<in> set (butlast ?b). Seq x < Seq (last ?b)"
      by (metis (no_types, lifting) sorted_wrt_append list.set_intros(1))
    moreover have "e \<in> set (butlast ?b) \<or> e = last ?b"
      using that False by (metis \<open>?b = butlast ?b @ [last ?b]\<close> Un_iff empty_iff insert_iff list.set set_append)
    ultimately show ?thesis by auto
  qed
  have "stream_events since p live = ?b @ [e \<leftarrow> live. Seq (last ?b) < Seq e]"
    using False assms(2) by (simp add: stream_events_def sse_live_filter Let_def)
  then show ?thesis
    using assms top by (fastforce simp: sorted_wrt_append sorted_wrt_filter)
qed

lemma in_order_events:
  assumes "map Seq evs = map of_nat [b..<b + length evs]" "b + length evs < 2 ^ 64"
  shows "in_order evs"
proof (rule sorted_wrt_iff_nth_less [THEN iffD2], intro allI impI)
  fix i j assume ij: "i < j" "j < length evs"
  have s: "Seq (evs ! k) = of_nat (b + k)" if "k < length evs" for k
    using arg_cong [OF assms(1), of "\<lambda>l. l ! k"] that by simp
  have "unat (of_nat (b + i) :: u64) = b + i" "unat (of_nat (b + j) :: u64) = b + j"
    using ij assms(2) by (simp_all only: unat_u64_of_nat)
  then show "Seq (evs ! i) < Seq (evs ! j)"
    using ij s by (simp add: word_less_nat_alt del: of_nat_add)
qed

lemma in_order_subseq: "subseq xs ys \<Longrightarrow> in_order ys \<Longrightarrow> in_order xs"
  by (induction rule: list_emb.induct) (auto dest: list_emb_set)

lemma step_events: "sys_step vfy s s' \<Longrightarrow> \<exists>new. events (s_pipe s') = events (s_pipe s) @ new"
proof (induction rule: sys_step.induct)
  case (lock_append r s io res p)
  then show ?case
    by (auto simp: submit_locked_def append_fresh_def record_event_eq Let_def
        split: option.splits if_splits prod.splits go_result.splits)
next
  case (received sid s ev p)
  then show ?case by (auto simp: receive_def split: option.splits list.splits)
qed (auto simp: RecordRejection_def Subscribe_def cancel_def)

lemma steps_events: "(sys_step vfy)\<^sup>*\<^sup>* s s' \<Longrightarrow> \<exists>new. events (s_pipe s') = events (s_pipe s) @ new"
proof (induction rule: rtranclp_induct)
  case (step y z)
  then show ?case using step_events [of vfy y z] by fastforce
qed simp

section \<open>Properties\<close>

text \<open>
  C28: a stream never repeats or reorders.  Whatever happens between the read of the backlog and
  the receptions from the channel, the events a stream delivers have strictly increasing \<open>Seq\<close>
  and are all events of the log.
\<close>

theorem stream_strictly_increasing:
  assumes "reachable vfy t s1" "(sys_step vfy)\<^sup>*\<^sup>* s1 s2" "t_file t = None" "\<not> t_closed t"
    and "subs (s_pipe s2) sid = Some c" "length (events (s_pipe s2)) < 2 ^ 64"
  shows "sorted_wrt (\<lambda>e e'. Seq e < Seq e') (stream_events since (s_pipe s1) (s_got s2 sid)) \<and>
    set (stream_events since (s_pipe s1) (s_got s2 sid)) \<subseteq> set (events (s_pipe s2))"
proof -
  have r2: "reachable vfy t s2" using assms(1,2) unfolding reachable_def by (meson rtranclp_trans)
  obtain new where new: "events (s_pipe s2) = events (s_pipe s1) @ new"
    using steps_events [OF assms(2)] by blast
  have all: "in_order (events (s_pipe s2))"
    using in_order_events [of "events (s_pipe s2)" 0] reachable_inv(1) [OF r2 assms(3,4)] assms(6)
    by (simp add: log_inv_def)
  have "subseq (s_got s2 sid @ buffered c) (drop (s_from s2 sid) (events (s_pipe s2)))"
    using reachable_inv(2) [OF r2 assms(3,4)] assms(5) by (simp add: sub_inv_def)
  then have "subseq (s_got s2 sid @ buffered c) (events (s_pipe s2))"
    by (metis append_take_drop_id list_emb_append2)
  then have live: "subseq (s_got s2 sid) (events (s_pipe s2))"
    by (metis list_emb_append_mono list_emb_Nil append_Nil2 subseq_order.order_refl subseq_order.order_trans)
  have log: "subseq (AllEventsSince since (s_pipe s1)) (events (s_pipe s2))"
  proof -
    have "subseq (drop k xs) (xs @ ys)" for k :: nat and xs ys :: "event list"
      by (metis append_take_drop_id list_emb_append2 list_emb_append_mono list_emb_Nil append_Nil2
          subseq_order.order_refl)
    then show ?thesis by (simp add: AllEventsSince_def new)
  qed
  have sub: "set xs \<subseteq> set ys" if "subseq xs ys" for xs ys :: "event list"
    using that by (induction rule: list_emb.induct) auto
  from stream_in_order [OF in_order_subseq [OF log all] in_order_subseq [OF live all]]
  show ?thesis using sub [OF log] sub [OF live] by blast
qed

theorem stream_strictly_increasing_witness:
  "\<exists>s. reachable toy_verify New s \<and>
    sorted_wrt (\<lambda>e e'. Seq e < Seq e') (stream_events 0 (s_pipe s) (s_got s 0))"
proof -
  let ?s = "sample_end\<lparr>s_pipe := snd (Subscribe (s_pipe sample_end)),
    s_got := (s_got sample_end)(nextID (s_pipe sample_end) := []),
    s_from := (s_from sample_end)(nextID (s_pipe sample_end) := length (events (s_pipe sample_end)))\<rparr>"
  have "sys_step toy_verify sample_end ?s"
    by (rule sys_step.subscribe) (simp add: Subscribe_def)
  from reachable_step [OF sample_run_reachable this] have r: "reachable toy_verify New ?s" .
  have "nextID (s_pipe sample_end) = 0"
    by (simp add: sample_run_def sample_start_def Let_def submit_locked_nextID NewPipeline_fields)
  then have "subs (s_pipe ?s) 0 = Some \<lparr>buffered = [], closed = False\<rparr>"
    "length (events (s_pipe ?s)) < 2 ^ 64"
    using sample_end_events by (simp_all add: Subscribe_def)
  with stream_strictly_increasing [OF r rtranclp.rtrancl_refl _ _ this(1)] r show ?thesis by auto
qed

text \<open>
  What the append endpoint answers.  A body that is not JSON, lacks the action or has a
  signature that is not hexadecimal gets 400 and changes nothing.  Otherwise the status tells the
  verdict of the pipeline: 404 exactly for an unknown agent, 401 for a wrong signature, 422 for
  version and skew, 400 for an invalid action; 200 carries the event, whose hexadecimal fields
  decode to the leaf hash and signature; and the handler never aborts.
\<close>

lemma audit_append_statuses:
  "case audit_append vfy (Memory_Get m) now now' io body p of
     (Reply s (obj, idem), p') \<Rightarrow> s = 200 \<and>
       (\<exists>req sig ev. body = Some req \<and> hexDecode (req_signature req) = Some sig \<and>
         Submit vfy (Memory_Get m) now now' io (req_action req) sig p = (Ok (ev, \<not> idem), p') \<and>
         obj = MarshalJSON ev)
   | (ErrorReply s code, p') \<Rightarrow>
       (case body of None \<Rightarrow> s = 400 \<and> p' = p
        | Some req \<Rightarrow> (case hexDecode (req_signature req) of None \<Rightarrow> s = 400 \<and> p' = p
           | Some sig \<Rightarrow> (s, code) \<in> {(400, ''missing_field''), (404, ''unknown_agent''),
               (401, ''invalid_signature''), (422, ''schema_version''), (422, ''timestamp_skew''),
               (400, ''invalid_action''), (500, ''internal'')} \<and>
             t_leaves (p_tree p') = t_leaves (p_tree p)))
   | (NoContent s, p') \<Rightarrow> False
   | (Aborted, p') \<Rightarrow> False"
proof (cases body)
  case None
  then show ?thesis by (simp add: audit_append_def)
next
  case (Some req)
  show ?thesis
  proof (cases "req_action req = None \<or> hexDecode (req_signature req) = None")
    case True
    then show ?thesis by (auto simp: audit_append_def Some split: option.split)
  next
    case False
    then obtain sig where sig: "hexDecode (req_signature req) = Some sig" "req_action req \<noteq> None" by auto
    let ?r = "Submit vfy (Memory_Get m) now now' io (req_action req) sig p"
    have app: "audit_append vfy (Memory_Get m) now now' io (Some req) p =
        (case ?r of (Err e, p') \<Rightarrow> (writePipelineError e, p') | (Panic, p') \<Rightarrow> (Aborted, p')
         | (Ok x, p') \<Rightarrow> (Reply 200 (append_response x), p'))"
      using sig by (auto simp: audit_append_def)
    note spec = Submit_spec [where vfy = vfy and m = m and now = now and now' = now' and io = io
        and act = "req_action req" and sig = sig and p = p]
    obtain res p' where rp: "?r = (res, p')" by (cases ?r)
    show ?thesis
    proof (cases res)
      case (Ok x)
      then show ?thesis
        using rp sig by (cases x) (simp add: app Some append_response_def)
    next
      case (Err e)
      then have "t_leaves (p_tree p') = t_leaves (p_tree p)" using spec rp by simp
      moreover have "e \<noteq> SubmitStore x" for x using Submit_memory_error rp Err by blast
      ultimately show ?thesis using rp sig Err by (simp add: app Some writePipelineError_def)
    next
      case Panic
      then show ?thesis using spec rp by simp
    qed
  qed
qed

text \<open>
  The wire format of events.  The JSON object of an appended event carries position, index and
  the three byte fields in hexadecimal that decodes to them; that of a rejected one carries no leaf
  field at all and always a reason.
\<close>

lemma event_json_fields:
  "if Kind e = KindRejected then
     map_of (MarshalJSON e) ''reason'' = Some (JStr (Reason e)) \<and>
     map_of (MarshalJSON e) ''kind'' = Some (JStr ''rejected'') \<and>
     fst ` set (MarshalJSON e) \<inter> {''leaf_index'', ''leaf_hash'', ''signature'', ''public_key''} = {}
   else
     map_of (MarshalJSON e) ''seq'' = Some (JNum (Seq e)) \<and>
     map_of (MarshalJSON e) ''leaf_index'' = Some (JNum (LeafIndex e)) \<and>
     (\<exists>h s k. map_of (MarshalJSON e) ''leaf_hash'' = Some (JStr h) \<and> hexDecode h = Some (LeafHash e) \<and>
       map_of (MarshalJSON e) ''signature'' = Some (JStr s) \<and> hexDecode s = Some (Signature e) \<and>
       map_of (MarshalJSON e) ''public_key'' = Some (JStr k) \<and> hexDecode k = Some (PublicKey e))"
  by (simp add: MarshalJSON_def omitempty_def KindRejected_def pipeline_hexEncode_eq)

end
