(* ===== verification/Capability.thy ===== *)
theory Capability
  imports Action Keystore "HOL-Library.Multiset"
begin

text \<open>
  Package \<open>internal/capability\<close>: scoped tokens (\<open>token.go\<close>), the revocation set
  (\<open>revocation.go\<close>, an interface and its in-memory store) and the service that issues, verifies and
  revokes them (\<open>service.go\<close>).  A token is signed over its canonical JSON.  The fresh identifier,
  the clock, the store's answer and the signature primitives are arguments, and so is what
  \<open>json.Unmarshal\<close> makes of the claims a caller presents.
\<close>

section \<open>Tokens\<close>

record token =
  TokenID :: string
  tok_AgentID :: string
  ActionTypes :: "string list"
  Targets :: "string list"
  IssuedAt :: i64
  ExpiresAt :: i64

definition Wildcard :: string where "Wildcard = ''*''"

text \<open>A Go slice copied by \<open>append([]string(nil), ...)\<close> is \<open>nil\<close> when empty and encodes as \<open>null\<close>.\<close>

definition json_array :: "string list \<Rightarrow> string" where
  "json_array xs = (if xs = [] then ''null'' else ''['' @ comma_join (map json_string xs) @ '']'')"

definition token_fields :: "token \<Rightarrow> (string \<times> string) list" where
  "token_fields t =
    [(''token_id'', json_string (TokenID t)),
     (''agent_id'', json_string (tok_AgentID t)),
     (''action_types'', json_array (sort (ActionTypes t))),
     (''targets'', json_array (sort (Targets t))),
     (''issued_at'', show_i64 (IssuedAt t)),
     (''expires_at'', show_i64 (ExpiresAt t))]"

definition TokenCanonical :: "token \<Rightarrow> string" where
  "TokenCanonical t =
    (let out = json_object (token_fields t) @ [CHR 0x0A]
     in if out \<noteq> [] \<and> last out = CHR 0x0A then butlast out else out)"

definition contains :: "string list \<Rightarrow> string \<Rightarrow> bool" where
  "contains xs want = list_ex (\<lambda>v. v = Wildcard \<or> v = want) xs"

definition Allows :: "token \<Rightarrow> string \<Rightarrow> string \<Rightarrow> bool \<times> bool" where
  "Allows t actionType target = (contains (ActionTypes t) actionType, contains (Targets t) target)"

section \<open>Revocation\<close>

type_synonym revoked = "string set"

definition NewMemoryStore :: revoked where "NewMemoryStore = {}"
definition Revoke :: "string \<Rightarrow> revoked \<Rightarrow> revoked" where "Revoke tokenID m = insert tokenID m"
definition IsRevoked :: "revoked \<Rightarrow> string \<Rightarrow> bool" where "IsRevoked m tokenID = (tokenID \<in> m)"

text \<open>What the service relies on: a revocation is visible at once and is never undone.\<close>

locale revocation_store =
  fixes revoke :: "string \<Rightarrow> 'r \<Rightarrow> 'r" and is_revoked :: "'r \<Rightarrow> string \<Rightarrow> bool"
  assumes revoke_same: "is_revoked (revoke t m) t"
    and revoke_keeps: "is_revoked m u \<Longrightarrow> is_revoked (revoke t m) u"
    and revoke_other: "u \<noteq> t \<Longrightarrow> is_revoked (revoke t m) u = is_revoked m u"
begin

lemma is_revoked_fold: "is_revoked (fold revoke ts m) u \<longleftrightarrow> u \<in> set ts \<or> is_revoked m u"
proof (induction ts arbitrary: m)
  case (Cons t ts)
  have "is_revoked (revoke t m) u \<longleftrightarrow> u = t \<or> is_revoked m u"
    using revoke_same revoke_other by metis
  with Cons show ?case by auto
qed simp

lemma revoked_stays: "is_revoked (fold revoke (us @ u # vs) m) u"
  by (simp add: is_revoked_fold revoke_same)

end

interpretation mem_revocation: revocation_store Revoke IsRevoked
  by unfold_locales (auto simp: Revoke_def IsRevoked_def)

section \<open>The service\<close>

datatype capability_error =
    ErrMalformedToken | CapInvalidSignature | ErrExpired | ErrRevoked | ErrAgentMismatch
  | ErrActionTypeNotAllowed | ErrTargetNotAllowed | CapUnknownAgent | ErrInvalidTTL
  | CapStore keystore_error | CapConfig string

record service =
  signPriv :: bytes
  signPub :: bytes
  revocation :: revoked
  rejectionSink :: bool

text \<open>Of the sink only its presence is state; \<open>gen\<close> is what \<open>ed25519.GenerateKey\<close> returns; the public half of a private key is its tail.\<close>

definition NewService ::
  "bool \<Rightarrow> bytes option \<Rightarrow> key_pair option \<Rightarrow> revoked option \<Rightarrow> bool \<Rightarrow> (capability_error, service) go_result"
where
  "NewService has_store signing_key gen given sink =
    (if \<not> has_store then Err (CapConfig ''keystore is required'')
     else let r = (case given of None \<Rightarrow> NewMemoryStore | Some r \<Rightarrow> r)
     in case signing_key of
       None \<Rightarrow>
        (case gen of
           None \<Rightarrow> Err (CapConfig ''rand'')
         | Some (pub, priv) \<Rightarrow> Ok \<lparr>signPriv = priv, signPub = pub, revocation = r, rejectionSink = sink\<rparr>)
     | Some priv \<Rightarrow>
        (if length priv \<noteq> PrivateKeySize then Err (CapConfig ''signing key'')
         else Ok \<lparr>signPriv = priv, signPub = drop 32 priv, revocation = r, rejectionSink = sink\<rparr>))"

record IssueRequest =
  iss_AgentID :: string
  iss_ActionTypes :: "string list"
  iss_Targets :: "string list"
  TTLSeconds :: i64

definition Unix :: "int \<Rightarrow> i64" where
  "Unix t = word_of_int (t div 1000000000)"

definition Issue ::
  "ed_sign \<Rightarrow> (string \<Rightarrow> (keystore_error, key_pair) go_result) \<Rightarrow> int \<Rightarrow> string \<Rightarrow> IssueRequest \<Rightarrow>
    service \<Rightarrow> (capability_error, token \<times> string \<times> bytes) go_result" where
  "Issue esign get clock uuid req s =
    (if TTLSeconds req \<le>s 0 then Err ErrInvalidTTL
     else case get (iss_AgentID req) of
       Panic \<Rightarrow> Panic
     | Err e \<Rightarrow> Err (if e = ErrNotFound then CapUnknownAgent else CapStore e)
     | Ok _ \<Rightarrow>
        (let now = Unix clock;
             tok = \<lparr>TokenID = uuid, tok_AgentID = iss_AgentID req,
               ActionTypes = iss_ActionTypes req, Targets = iss_Targets req,
               IssuedAt = now, ExpiresAt = now + TTLSeconds req\<rparr>;
             canonical = TokenCanonical tok
         in Ok (tok, canonical, esign (signPriv s) (bytes_of canonical))))"

record VerifyRequest =
  ver_Claims :: string
  ver_Signature :: bytes
  ver_AgentID :: string
  ver_ActionType :: string
  ver_Target :: string

definition SetRejectionSink :: "bool \<Rightarrow> service \<Rightarrow> service" where
  "SetRejectionSink sink s = s\<lparr>rejectionSink := sink\<rparr>"

text \<open>What the rejection sink is called with; a panic of the sink is caught, so the caller sees nothing of it.\<close>

type_synonym rejected_call = "string \<times> string \<times> string \<times> string"

definition emitRejection :: "service \<Rightarrow> VerifyRequest \<Rightarrow> string \<Rightarrow> rejected_call list" where
  "emitRejection s req reason =
    (if rejectionSink s then [(ver_AgentID req, ver_ActionType req, ver_Target req, reason)] else [])"

text \<open>
  \<open>unmarshal\<close> is \<open>json.Unmarshal\<close> into a token (\<open>None\<close>: an error).  The second component lists the
  calls of the sink.
\<close>

definition VerifyToken ::
  "ed_verify \<Rightarrow> (string \<Rightarrow> token option) \<Rightarrow> int \<Rightarrow> VerifyRequest \<Rightarrow> service \<Rightarrow>
    (capability_error, token) go_result \<times> rejected_call list" where
  "VerifyToken vfy unmarshal clock req s =
    (case unmarshal (ver_Claims req) of
       None \<Rightarrow> (Err ErrMalformedToken, emitRejection s req ''malformed_token'')
     | Some tok \<Rightarrow>
        (if \<not> vfy (signPub s) (bytes_of (TokenCanonical tok)) (ver_Signature req)
         then (Err CapInvalidSignature, emitRejection s req ''invalid_signature'')
         else if ExpiresAt tok \<le>s Unix clock
         then (Err ErrExpired, emitRejection s req ''expired'')
         else if IsRevoked (revocation s) (TokenID tok)
         then (Err ErrRevoked, emitRejection s req ''revoked'')
         else if tok_AgentID tok \<noteq> ver_AgentID req
         then (Err ErrAgentMismatch, emitRejection s req ''agent_mismatch'')
         else let (actionOK, targetOK) = Allows tok (ver_ActionType req) (ver_Target req)
         in if \<not> actionOK
            then (Err ErrActionTypeNotAllowed, emitRejection s req ''action_type_not_allowed'')
            else if \<not> targetOK
            then (Err ErrTargetNotAllowed, emitRejection s req ''target_not_allowed'')
            else (Ok tok, [])))"

definition RevokeToken :: "string \<Rightarrow> service \<Rightarrow> service" where
  "RevokeToken tokenID s = s\<lparr>revocation := Revoke tokenID (revocation s)\<rparr>"

definition SigningPublicKey :: "service \<Rightarrow> bytes" where
  "SigningPublicKey s = signPub s"

section \<open>The canonical encoding of a token\<close>

lemma json_array_inj:
  assumes "json_array xs @ r = json_array ys @ q" "\<forall>x \<in> set xs. valid_utf8 x" "\<forall>y \<in> set ys. valid_utf8 y"
  shows "xs = ys \<and> r = q"
proof -
  have tail: "comma_join (map json_string xs) @ '']'' @ r = comma_join (map json_string ys) @ '']'' @ q \<Longrightarrow>
      xs \<noteq> [] \<Longrightarrow> ys \<noteq> [] \<Longrightarrow> \<forall>x \<in> set xs. valid_utf8 x \<Longrightarrow> \<forall>y \<in> set ys. valid_utf8 y \<Longrightarrow>
      xs = ys \<and> r = q" for xs ys
  proof (induction xs arbitrary: ys)
    case (Cons x xs)
    then obtain y zs where ys: "ys = y # zs" by (cases ys) auto
    have split: "comma_join (map json_string (a # as)) @ rest =
        json_string a @ (if as = [] then rest else '','' @ comma_join (map json_string as) @ rest)"
      for a as and rest :: string
      by (cases as) simp_all
    from Cons.prems(1) have
      "json_string x @ (if xs = [] then '']'' @ r else '','' @ comma_join (map json_string xs) @ '']'' @ r) =
       json_string y @ (if zs = [] then '']'' @ q else '','' @ comma_join (map json_string zs) @ '']'' @ q)"
      unfolding ys split .
    from json_string_inj [OF this] Cons.prems(4,5) ys have xy: "x = y" and
      rest: "(if xs = [] then '']'' @ r else '','' @ comma_join (map json_string xs) @ '']'' @ r) =
       (if zs = [] then '']'' @ q else '','' @ comma_join (map json_string zs) @ '']'' @ q)"
      by simp_all
    then show ?case using Cons.IH [of zs] Cons.prems(4,5) ys by (auto split: if_splits)
  qed simp
  show ?thesis
    using assms tail [of xs ys] by (auto simp: json_array_def split: if_splits)
qed

lemma sorted_token_fields:
  "map (\<lambda>(k, v). json_string k @ '':'' @ v) (sort_key fst (token_fields t)) =
    [''\"action_types\":'' @ json_array (sort (ActionTypes t)),
     ''\"agent_id\":'' @ json_string (tok_AgentID t),
     ''\"expires_at\":'' @ show_i64 (ExpiresAt t),
     ''\"issued_at\":'' @ show_i64 (IssuedAt t),
     ''\"targets\":'' @ json_array (sort (Targets t)),
     ''\"token_id\":'' @ json_string (TokenID t)]"
proof -
  have keys: "json_string ''action_types'' = ''\"action_types\"''"
    "json_string ''agent_id'' = ''\"agent_id\"''" "json_string ''expires_at'' = ''\"expires_at\"''"
    "json_string ''issued_at'' = ''\"issued_at\"''"
    "json_string ''targets'' = ''\"targets\"''" "json_string ''token_id'' = ''\"token_id\"''"
    by code_simp+
  show ?thesis by (simp add: token_fields_def sort_key_def less_eq_char_def keys)
qed

lemma TokenCanonical_eq:
  "TokenCanonical t =
    ''{\"action_types\":'' @ json_array (sort (ActionTypes t))
     @ '',\"agent_id\":'' @ json_string (tok_AgentID t)
     @ '',\"expires_at\":'' @ show_i64 (ExpiresAt t)
     @ '',\"issued_at\":'' @ show_i64 (IssuedAt t)
     @ '',\"targets\":'' @ json_array (sort (Targets t))
     @ '',\"token_id\":'' @ json_string (TokenID t) @ ''}''"
  unfolding TokenCanonical_def json_object_def sorted_token_fields
  by (simp add: Let_def butlast_append)

definition utf8_token :: "token \<Rightarrow> bool" where
  "utf8_token t \<longleftrightarrow> valid_utf8 (TokenID t) \<and> valid_utf8 (tok_AgentID t) \<and>
    (\<forall>s \<in> set (ActionTypes t) \<union> set (Targets t). valid_utf8 s)"

lemma show_i64_delim:
  "show_i64 v @ CHR '','' # x = show_i64 w @ CHR '','' # y \<Longrightarrow> v = w \<and> x = y"
  using show_int_delim [of "sint v" "CHR '',''" x "sint w" "CHR '',''" y]
  by (auto simp: show_i64_def is_digit_def intro: signed_word_eqI)

lemma TokenCanonical_inj:
  fixes t u :: token
  assumes "TokenCanonical t = TokenCanonical u" "utf8_token t" "utf8_token u"
  shows "TokenID t = TokenID u \<and> tok_AgentID t = tok_AgentID u \<and> ExpiresAt t = ExpiresAt u \<and>
    IssuedAt t = IssuedAt u \<and> mset (ActionTypes t) = mset (ActionTypes u) \<and>
    mset (Targets t) = mset (Targets u)"
proof -
  note utf = assms(2,3) [unfolded utf8_token_def]
  define rest where "rest v = ''\"targets\":'' @ json_array (sort (Targets v))
     @ '',\"token_id\":'' @ json_string (TokenID v) @ ''}''" for v :: token
  define mid where "mid v = ''\"expires_at\":'' @ show_i64 (ExpiresAt v)
     @ '',\"issued_at\":'' @ show_i64 (IssuedAt v) @ '','' @ rest v" for v :: token
  have can: "TokenCanonical v = ''{\"action_types\":'' @ json_array (sort (ActionTypes v))
     @ '',\"agent_id\":'' @ json_string (tok_AgentID v) @ '','' @ mid v" for v
    by (simp add: TokenCanonical_eq mid_def rest_def)
  from assms(1) have "json_array (sort (ActionTypes t)) @ '',\"agent_id\":'' @ json_string (tok_AgentID t)
       @ '','' @ mid t =
     json_array (sort (ActionTypes u)) @ '',\"agent_id\":'' @ json_string (tok_AgentID u) @ '','' @ mid u"
    unfolding can by simp
  from json_array_inj [OF this] utf have 1: "sort (ActionTypes t) = sort (ActionTypes u)"
    and "json_string (tok_AgentID t) @ '','' @ mid t = json_string (tok_AgentID u) @ '','' @ mid u"
    by simp_all
  from json_string_inj [OF this(2)] utf have 2: "tok_AgentID t = tok_AgentID u"
    and "show_i64 (ExpiresAt t) @ CHR '','' # ''\"issued_at\":'' @ show_i64 (IssuedAt t) @ '','' @ rest t =
      show_i64 (ExpiresAt u) @ CHR '','' # ''\"issued_at\":'' @ show_i64 (IssuedAt u) @ '','' @ rest u"
    by (simp_all add: mid_def)
  from show_i64_delim [OF this(2)] have 3: "ExpiresAt t = ExpiresAt u"
    and "show_i64 (IssuedAt t) @ CHR '','' # rest t = show_i64 (IssuedAt u) @ CHR '','' # rest u"
    by simp_all
  from show_i64_delim [OF this(2)] have 4: "IssuedAt t = IssuedAt u"
    and "json_array (sort (Targets t)) @ '',\"token_id\":'' @ json_string (TokenID t) @ ''}'' =
      json_array (sort (Targets u)) @ '',\"token_id\":'' @ json_string (TokenID u) @ ''}''"
    by (simp_all add: rest_def)
  from json_array_inj [OF this(2)] utf have 5: "sort (Targets t) = sort (Targets u)"
    and "json_string (TokenID t) @ ''}'' = json_string (TokenID u) @ ''}''"
    by simp_all
  from json_string_inj [OF this(2)] utf have 6: "TokenID t = TokenID u" by simp
  from 1 5 have "mset (ActionTypes t) = mset (ActionTypes u)" "mset (Targets t) = mset (Targets u)"
    by (metis mset_sort)+
  with 2 3 4 6 show ?thesis by simp
qed

lemma contains_mset: "mset xs = mset ys \<Longrightarrow> contains xs w = contains ys w"
  by (auto simp: contains_def list_ex_iff dest: mset_eq_setD)

end
