(* ===== verification/Capability_Http.thy ===== *)
theory Capability_Http
  imports Capability
begin

text \<open>
  Package \<open>internal/capability/http\<close> and the properties of the capability service: what a token
  signature binds, when verification succeeds, how long a token lives, what revocation does, and
  what the endpoints answer.
\<close>

section \<open>The endpoints\<close>

record cap_issue_request =
  cir_AgentID :: string
  cir_ActionTypes :: "string list option"
  cir_Targets :: "string list option"
  cir_TTLSeconds :: i64

text \<open>The reply's body: token id, claims and signature in hexadecimal.\<close>

definition capability_issue ::
  "ed_sign \<Rightarrow> (string \<Rightarrow> (keystore_error, key_pair) go_result) \<Rightarrow> int \<Rightarrow> string \<Rightarrow>
    cap_issue_request option \<Rightarrow> service \<Rightarrow> (string \<times> string \<times> string) http_reply" where
  "capability_issue esign get clock uuid body s =
    (case body of
       None \<Rightarrow> ErrorReply 400 ''invalid_json''
     | Some req \<Rightarrow>
        (if cir_AgentID req = [] then ErrorReply 400 ''missing_field''
         else case (cir_ActionTypes req, cir_Targets req) of
           (Some types, Some targets) \<Rightarrow>
            (case Issue esign get clock uuid
                \<lparr>iss_AgentID = cir_AgentID req, iss_ActionTypes = types, iss_Targets = targets,
                 TTLSeconds = cir_TTLSeconds req\<rparr> s of
               Err e \<Rightarrow>
                (if e = ErrInvalidTTL then ErrorReply 400 ''invalid_ttl''
                 else if e = CapUnknownAgent then ErrorReply 404 ''unknown_agent''
                 else ErrorReply 500 ''internal'')
             | Panic \<Rightarrow> Aborted
             | Ok (tok, claims, sig) \<Rightarrow> Reply 201 (TokenID tok, claims, hexEncode sig))
         | _ \<Rightarrow> ErrorReply 400 ''missing_field''))"

record cap_verify_request =
  cvr_ClaimsJSON :: string
  cvr_SignatureHex :: string
  cvr_AgentID :: string
  cvr_ActionType :: string
  cvr_Target :: string

fun verify_error_reply :: "capability_error \<Rightarrow> 'a http_reply" where
  "verify_error_reply ErrMalformedToken = ErrorReply 400 ''malformed_token''"
| "verify_error_reply CapInvalidSignature = ErrorReply 401 ''invalid_signature''"
| "verify_error_reply ErrExpired = ErrorReply 403 ''expired''"
| "verify_error_reply ErrRevoked = ErrorReply 403 ''revoked''"
| "verify_error_reply ErrAgentMismatch = ErrorReply 403 ''agent_mismatch''"
| "verify_error_reply ErrActionTypeNotAllowed = ErrorReply 403 ''action_type_not_allowed''"
| "verify_error_reply ErrTargetNotAllowed = ErrorReply 403 ''target_not_allowed''"
| "verify_error_reply _ = ErrorReply 500 ''internal''"

definition capability_verify ::
  "ed_verify \<Rightarrow> (string \<Rightarrow> token option) \<Rightarrow> int \<Rightarrow> cap_verify_request option \<Rightarrow> service \<Rightarrow>
    string http_reply \<times> rejected_call list" where
  "capability_verify vfy unmarshal clock body s =
    (case body of
       None \<Rightarrow> (ErrorReply 400 ''invalid_json'', [])
     | Some req \<Rightarrow>
        (if cvr_ClaimsJSON req = [] \<or> cvr_SignatureHex req = [] \<or> cvr_AgentID req = []
         then (ErrorReply 400 ''missing_field'', [])
         else case hexDecode (cvr_SignatureHex req) of
           None \<Rightarrow> (ErrorReply 400 ''invalid_signature_hex'', [])
         | Some sig \<Rightarrow>
            (case VerifyToken vfy unmarshal clock
                \<lparr>ver_Claims = cvr_ClaimsJSON req, ver_Signature = sig, ver_AgentID = cvr_AgentID req,
                 ver_ActionType = cvr_ActionType req, ver_Target = cvr_Target req\<rparr> s of
               (Err e, calls) \<Rightarrow> (verify_error_reply e, calls)
             | (Panic, calls) \<Rightarrow> (Aborted, calls)
             | (Ok tok, calls) \<Rightarrow> (Reply 200 (TokenID tok), calls))))"

definition capability_revoke :: "string \<Rightarrow> service \<Rightarrow> unit http_reply \<times> service" where
  "capability_revoke tokenID s =
    (if tokenID = [] then (ErrorReply 400 ''missing_field'', s)
     else (NoContent 204, RevokeToken tokenID s))"

definition capability_pubkey :: "service \<Rightarrow> string http_reply" where
  "capability_pubkey s = Reply 200 (hexEncode (SigningPublicKey s))"

section \<open>Helper facts\<close>

lemma revocation_fold: "revocation (fold RevokeToken ids s) = fold Revoke ids (revocation s)"
  and signPub_fold: "signPub (fold RevokeToken ids s) = signPub s"
  and rejectionSink_fold: "rejectionSink (fold RevokeToken ids s) = rejectionSink s"
  by (induction ids arbitrary: s) (simp_all add: RevokeToken_def)

lemma emitRejection_fold: "emitRejection (fold RevokeToken ids s) req reason = emitRejection s req reason"
  by (simp add: emitRejection_def rejectionSink_fold)

lemma VerifyToken_calls:
  "fst (VerifyToken vfy unmarshal clock req s) \<noteq> Panic \<and>
    ((\<exists>tok. fst (VerifyToken vfy unmarshal clock req s) = Ok tok) \<and>
       snd (VerifyToken vfy unmarshal clock req s) = [] \<or>
     (\<exists>e reason. fst (VerifyToken vfy unmarshal clock req s) = Err e \<and>
       snd (VerifyToken vfy unmarshal clock req s) =
         emitRejection s req reason))"
  by (auto simp: VerifyToken_def Let_def split: option.split prod.split)

lemma VerifyToken_Ok:
  "fst (VerifyToken vfy unmarshal clock req s) = Ok tok \<longleftrightarrow>
    unmarshal (ver_Claims req) = Some tok \<and>
    vfy (signPub s) (bytes_of (TokenCanonical tok)) (ver_Signature req) \<and>
    sint (Unix clock) < sint (ExpiresAt tok) \<and> TokenID tok \<notin> revocation s \<and>
    tok_AgentID tok = ver_AgentID req \<and>
    contains (ActionTypes tok) (ver_ActionType req) \<and> contains (Targets tok) (ver_Target req)"
  by (auto simp: VerifyToken_def Let_def IsRevoked_def Allows_def word_sle_eq not_le
      split: option.splits)

lemma verify_reply_status:
  "http_status (fst (case VerifyToken vfy unmarshal clock r s of
       (Err e, calls) \<Rightarrow> (verify_error_reply e, calls)
     | (Panic, calls) \<Rightarrow> (Aborted, calls)
     | (Ok tok, calls) \<Rightarrow> (Reply 200 (TokenID tok), calls)))
    \<in> {Some 200, Some 400, Some 401, Some 403, Some 500}"
proof -
  have "http_status (verify_error_reply e :: string http_reply)
      \<in> {Some 200, Some 400, Some 401, Some 403, Some 500}" for e
    by (cases e) simp_all
  then show ?thesis
    using VerifyToken_calls [of vfy unmarshal clock r s]
    by (cases "VerifyToken vfy unmarshal clock r s"; cases "fst (VerifyToken vfy unmarshal clock r s)")
      simp_all
qed

lemma contains_iff: "contains xs w \<longleftrightarrow> ''*'' \<in> set xs \<or> w \<in> set xs"
  by (auto simp: contains_def list_ex_iff Wildcard_def)

lemma sint_add_overflow:
  fixes x y :: i64
  assumes "0 \<le> sint x" "2 ^ 63 \<le> sint x + sint y"
  shows "sint (x + y) < sint x"
proof -
  have r: "sint x < 2 ^ 63" "sint y < 2 ^ 63"
    using sint_range_size [of x] sint_range_size [of y] by (simp_all add: word_size)
  have "take_bit 64 (sint x + sint y + 2 ^ 63) = sint x + sint y + 2 ^ 63 - 2 ^ 64"
  proof -
    let ?v = "sint x + sint y + 2 ^ 63"
    have "?v mod 2 ^ 64 = (?v - 2 ^ 64) mod 2 ^ 64" by (rule minus_mod_self2 [symmetric])
    also have "\<dots> = ?v - 2 ^ 64" by (rule mod_pos_pos_trivial) (use assms r in simp_all)
    finally show ?thesis by (simp only: take_bit_eq_mod)
  qed
  then have "sint (x + y) = sint x + sint y - 2 ^ 64"
    by (simp add: sint_word_ariths(1) signed_take_bit_eq_take_bit_shift)
  then show ?thesis using r by simp
qed

section \<open>Properties\<close>

text \<open>
  C19: the signed claims determine the scope.  Two tokens (with valid UTF-8 strings) with one
  canonical encoding agree in identifier, agent and times and allow exactly the same actions on
  the same targets, so a signature on one cannot stretch to another scope.
\<close>

theorem token_encoding_binds_scope:
  fixes t u :: token
  assumes "TokenCanonical t = TokenCanonical u" "utf8_token t" "utf8_token u"
  shows "TokenID t = TokenID u \<and> tok_AgentID t = tok_AgentID u \<and> IssuedAt t = IssuedAt u \<and>
    ExpiresAt t = ExpiresAt u \<and> Allows t a g = Allows u a g"
  using TokenCanonical_inj [OF assms] contains_mset [of "ActionTypes t" "ActionTypes u" a]
    contains_mset [of "Targets t" "Targets u" g]
  by (simp add: Allows_def)

definition sample_token :: token where
  "sample_token = \<lparr>TokenID = ''id-1'', tok_AgentID = ''bot-1'', ActionTypes = [''swap'', ''ping''],
    Targets = [''*''], IssuedAt = 1700000000, ExpiresAt = 1700000060\<rparr>"

lemma sample_token_utf8: "utf8_token sample_token"
  "utf8_token (sample_token\<lparr>ActionTypes := [''ping'', ''swap'']\<rparr>)"
proof -
  have "list_all (\<lambda>c. of_char c < (0x80 :: nat)) s \<Longrightarrow> valid_utf8 s" for s
    by (rule valid_utf8_ascii) (simp add: list_all_iff)
  moreover have "list_all (list_all (\<lambda>c. of_char c < (0x80 :: nat)))
      [''id-1'', ''bot-1'', ''swap'', ''ping'', ''*'']" by code_simp
  ultimately show "utf8_token sample_token" "utf8_token (sample_token\<lparr>ActionTypes := [''ping'', ''swap'']\<rparr>)"
    by (simp_all add: utf8_token_def sample_token_def)
qed

theorem token_encoding_binds_scope_witness:
  "Allows sample_token ''ping'' ''x'' = Allows (sample_token\<lparr>ActionTypes := [''ping'', ''swap'']\<rparr>) ''ping'' ''x''"
proof -
  have "sort [''swap'', ''ping''] = sort [''ping'', ''swap'']" by (simp add: less_eq_char_def)
  then have "TokenCanonical sample_token = TokenCanonical (sample_token\<lparr>ActionTypes := [''ping'', ''swap'']\<rparr>)"
    unfolding TokenCanonical_eq by (simp add: sample_token_def del: sort_key_simps)
  from token_encoding_binds_scope [OF this sample_token_utf8, of "''ping''" "''x''"] show ?thesis by simp
qed

text \<open>
  C12: verification is exact.  \<open>Verify\<close> accepts exactly the claims that decode to a token whose
  canonical bytes the service's key signed, that has not expired, is not revoked, names the
  requesting agent and contains the action type and target or the wildcard; it never panics, and
  it reports every denial, and only denials, to the sink (if there is one) exactly once with the request's fields.
\<close>

theorem verify_token_exact:
  "(fst (VerifyToken vfy unmarshal clock req s) = Ok tok \<longleftrightarrow>
    unmarshal (ver_Claims req) = Some tok \<and>
    vfy (signPub s) (bytes_of (TokenCanonical tok)) (ver_Signature req) \<and>
    sint (Unix clock) < sint (ExpiresAt tok) \<and> TokenID tok \<notin> revocation s \<and>
    tok_AgentID tok = ver_AgentID req \<and>
    (''*'' \<in> set (ActionTypes tok) \<or> ver_ActionType req \<in> set (ActionTypes tok)) \<and>
    (''*'' \<in> set (Targets tok) \<or> ver_Target req \<in> set (Targets tok))) \<and>
   fst (VerifyToken vfy unmarshal clock req s) \<noteq> Panic \<and>
   ((\<exists>tok. fst (VerifyToken vfy unmarshal clock req s) = Ok tok) \<and>
      snd (VerifyToken vfy unmarshal clock req s) = [] \<or>
    (\<exists>e reason. fst (VerifyToken vfy unmarshal clock req s) = Err e \<and>
      snd (VerifyToken vfy unmarshal clock req s) =
        (if rejectionSink s then [(ver_AgentID req, ver_ActionType req, ver_Target req, reason)] else [])))"
  unfolding emitRejection_def [symmetric]
  by (rule conjI, simp only: VerifyToken_Ok contains_iff, rule VerifyToken_calls)

text \<open>
  C20: the life of an issued token.  Given that the JSON decoder reads issued claims back (with the
  lists in the sorted order in which they were written) and that the signature primitive verifies
  what it signed, a token verifies for its agent exactly until the 64-bit sum of issue time and
  time to live, for the action types and targets it was issued for, as long as it is not revoked.
  If that sum overflows, the token is expired when it is issued.
\<close>

theorem issued_token_lifetime:
  assumes "Issue esign get now uuid ireq s = Ok (tok, claims, sig)"
    and "unmarshal claims = Some (tok\<lparr>ActionTypes := sort (ActionTypes tok), Targets := sort (Targets tok)\<rparr>)"
    and "\<forall>m. vfy (signPub s) m (esign (signPriv s) m)"
  shows "((\<exists>t. fst (VerifyToken vfy unmarshal clock \<lparr>ver_Claims = claims, ver_Signature = sig,
        ver_AgentID = iss_AgentID ireq, ver_ActionType = a, ver_Target = g\<rparr> s) = Ok t) \<longleftrightarrow>
      sint (Unix clock) < sint (Unix now + TTLSeconds ireq) \<and> uuid \<notin> revocation s \<and>
      (''*'' \<in> set (iss_ActionTypes ireq) \<or> a \<in> set (iss_ActionTypes ireq)) \<and>
      (''*'' \<in> set (iss_Targets ireq) \<or> g \<in> set (iss_Targets ireq))) \<and>
    (0 \<le> sint (Unix now) \<and> 2 ^ 63 \<le> sint (Unix now) + sint (TTLSeconds ireq) \<longrightarrow>
      fst (VerifyToken vfy unmarshal now \<lparr>ver_Claims = claims, ver_Signature = sig,
        ver_AgentID = iss_AgentID ireq, ver_ActionType = a, ver_Target = g\<rparr> s) = Err ErrExpired)"
proof -
  let ?t = "tok\<lparr>ActionTypes := sort (ActionTypes tok), Targets := sort (Targets tok)\<rparr>"
  have tok: "tok = \<lparr>TokenID = uuid, tok_AgentID = iss_AgentID ireq,
      ActionTypes = iss_ActionTypes ireq, Targets = iss_Targets ireq,
      IssuedAt = Unix now, ExpiresAt = Unix now + TTLSeconds ireq\<rparr>"
    and sig: "claims = TokenCanonical tok" "sig = esign (signPriv s) (bytes_of (TokenCanonical tok))"
    using assms(1) by (auto simp: Issue_def Let_def split: if_splits go_result.splits)
  have "sort (sort xs) = sort xs" for xs :: "string list" by (simp add: sorted_sort_id)
  then have "TokenCanonical ?t = TokenCanonical tok" by (simp add: TokenCanonical_eq)
  then have ver: "vfy (signPub s) (bytes_of (TokenCanonical ?t)) sig" using assms(3) sig by simp
  have "fst (VerifyToken vfy unmarshal now \<lparr>ver_Claims = claims, ver_Signature = sig,
      ver_AgentID = iss_AgentID ireq, ver_ActionType = a, ver_Target = g\<rparr> s) = Err ErrExpired"
    if "0 \<le> sint (Unix now)" "2 ^ 63 \<le> sint (Unix now) + sint (TTLSeconds ireq)"
    using sint_add_overflow [OF that] ver assms(2) tok by (simp add: VerifyToken_def word_sle_eq)
  then show ?thesis using ver assms(2) by (auto simp: VerifyToken_Ok contains_iff tok)
qed

theorem issued_token_lifetime_witness:
  "\<exists>tok claims sig. Issue toy_sign (\<lambda>_. Ok (replicate 32 7, replicate 64 7)) (1700000000 * 1000000000) ''id-1''
      \<lparr>iss_AgentID = ''bot-1'', iss_ActionTypes = [''swap''], iss_Targets = [''*''], TTLSeconds = 60\<rparr>
      \<lparr>signPriv = replicate 64 9, signPub = replicate 32 9, revocation = {}, rejectionSink = True\<rparr> = Ok (tok, claims, sig) \<and>
    (\<exists>t. fst (VerifyToken toy_verify (\<lambda>_. Some tok) (1700000059 * 1000000000)
      \<lparr>ver_Claims = claims, ver_Signature = sig, ver_AgentID = ''bot-1'', ver_ActionType = ''swap'',
       ver_Target = ''anything''\<rparr>
      \<lparr>signPriv = replicate 64 9, signPub = replicate 32 9, revocation = {}, rejectionSink = True\<rparr>) = Ok t)"
proof -
  let ?s = "\<lparr>signPriv = replicate 64 9, signPub = replicate 32 9, revocation = {}, rejectionSink = True\<rparr>"
  let ?q = "\<lparr>iss_AgentID = ''bot-1'', iss_ActionTypes = [''swap''], iss_Targets = [''*''], TTLSeconds = 60\<rparr>"
  let ?get = "\<lambda>_ :: string. Ok (replicate 32 7, replicate 64 7) :: (keystore_error, key_pair) go_result"
  obtain tok claims sig where iss: "Issue toy_sign ?get (1700000000 * 1000000000) ''id-1'' ?q ?s
      = Ok (tok, claims, sig)" "ActionTypes tok = [''swap'']" "Targets tok = [''*'']"
    by (simp add: Issue_def Let_def word_sle_eq)
  have um: "(\<lambda>_. Some tok) claims =
      Some (tok\<lparr>ActionTypes := sort (ActionTypes tok), Targets := sort (Targets tok)\<rparr>)"
    using iss(2,3) by simp
  have "\<forall>m. toy_verify (signPub ?s) m (toy_sign (signPriv ?s) m)"
    by (simp add: toy_verify_def toy_sign_def)
  from issued_token_lifetime [where unmarshal = "\<lambda>_. Some tok" and vfy = toy_verify and
      clock = "1700000059 * 1000000000" and a = "''swap''" and g = "''anything''",
      OF iss(1) um this]
  show ?thesis using iss(1) by (auto simp: Unix_def)
qed

text \<open>
  C31: revocation is exact and permanent.  After any sequence of revocations \<open>Verify\<close> answers as before
  them, except that a correctly signed, unexpired token whose identifier is among those revoked is
  denied with \<open>ErrRevoked\<close> and one report, whichever revocations came before or after its own.
\<close>

theorem revocation_exact:
  assumes "unmarshal (ver_Claims req) = Some tok"
  shows "VerifyToken vfy unmarshal clock req (fold RevokeToken ids s) =
    (if TokenID tok \<in> set ids \<and> sint (Unix clock) < sint (ExpiresAt tok) \<and>
        vfy (signPub s) (bytes_of (TokenCanonical tok)) (ver_Signature req)
     then (Err ErrRevoked, emitRejection s req ''revoked'')
     else VerifyToken vfy unmarshal clock req s)"
proof -
  have "IsRevoked (revocation (fold RevokeToken ids s)) (TokenID tok) \<longleftrightarrow>
      TokenID tok \<in> set ids \<or> IsRevoked (revocation s) (TokenID tok)"
    unfolding revocation_fold by (rule mem_revocation.is_revoked_fold)
  then show ?thesis
    using assms unfolding VerifyToken_def emitRejection_fold signPub_fold
    by (auto simp: word_sle_eq)
qed

theorem revocation_exact_witness:
  "fst (VerifyToken toy_verify (\<lambda>_. Some sample_token) 0
      \<lparr>ver_Claims = ''{}'', ver_Signature = replicate 32 9 @ replicate 32 0, ver_AgentID = ''bot-1'',
       ver_ActionType = ''swap'', ver_Target = ''x''\<rparr>
      (fold RevokeToken [''id-0'', ''id-1'', ''id-2'']
        \<lparr>signPriv = replicate 64 9, signPub = replicate 32 9, revocation = {}, rejectionSink = True\<rparr>)) = Err ErrRevoked"
  using revocation_exact [of "\<lambda>_. Some sample_token"
      "\<lparr>ver_Claims = ''{}'', ver_Signature = replicate 32 9 @ replicate 32 0, ver_AgentID = ''bot-1'',
       ver_ActionType = ''swap'', ver_Target = ''x''\<rparr>" sample_token toy_verify 0
      "[''id-0'', ''id-1'', ''id-2'']" "\<lparr>signPriv = replicate 64 9, signPub = replicate 32 9, revocation = {}, rejectionSink = True\<rparr>"]
  by (simp add: toy_verify_def sample_token_def Unix_def)

text \<open>
  What the token endpoints answer.  With the in-memory key store no endpoint aborts.  Issuing
  answers 201 exactly for a complete request of a known agent with a positive time to live, and
  400, 404 or 500 otherwise; verifying answers 200, 400, 401, 403 or 500; revoking answers 204 and
  adds exactly that identifier, or 400 to an empty one and changes nothing.
\<close>

lemma capability_statuses:
  "http_status (capability_issue esign (Memory_Get m) clock uuid ibody s) \<in>
      {Some 201, Some 400, Some 404, Some 500} \<and>
   (case ibody of None \<Rightarrow> http_status (capability_issue esign (Memory_Get m) clock uuid ibody s) = Some 400
    | Some req \<Rightarrow> http_status (capability_issue esign (Memory_Get m) clock uuid ibody s) = Some 201 \<longleftrightarrow>
        cir_AgentID req \<noteq> [] \<and> cir_ActionTypes req \<noteq> None \<and> cir_Targets req \<noteq> None \<and>
        0 < sint (cir_TTLSeconds req) \<and> Mapping.lookup m (cir_AgentID req) \<noteq> None) \<and>
   http_status (fst (capability_verify vfy unmarshal clock vbody s)) \<in>
      {Some 200, Some 400, Some 401, Some 403, Some 500} \<and>
   (case capability_revoke tokenID s of
      (reply, s') \<Rightarrow> if tokenID = [] then http_status reply = Some 400 \<and> s' = s
        else http_status reply = Some 204 \<and> revocation s' = insert tokenID (revocation s))"
proof (intro conjI)
  show "http_status (capability_issue esign (Memory_Get m) clock uuid ibody s) \<in>
      {Some 201, Some 400, Some 404, Some 500}"
    by (auto simp: capability_issue_def Issue_def Memory_Get_def Let_def split: option.split)
  show "case ibody of None \<Rightarrow> http_status (capability_issue esign (Memory_Get m) clock uuid ibody s) = Some 400
    | Some req \<Rightarrow> http_status (capability_issue esign (Memory_Get m) clock uuid ibody s) = Some 201 \<longleftrightarrow>
        cir_AgentID req \<noteq> [] \<and> cir_ActionTypes req \<noteq> None \<and> cir_Targets req \<noteq> None \<and>
        0 < sint (cir_TTLSeconds req) \<and> Mapping.lookup m (cir_AgentID req) \<noteq> None"
    by (auto simp: capability_issue_def Issue_def Memory_Get_def Let_def word_sle_eq not_le split: option.split)
  show "http_status (fst (capability_verify vfy unmarshal clock vbody s)) \<in>
      {Some 200, Some 400, Some 401, Some 403, Some 500}"
    using verify_reply_status [of vfy unmarshal clock _ s]
    by (simp add: capability_verify_def split: option.split)
  show "case capability_revoke tokenID s of
      (reply, s') \<Rightarrow> if tokenID = [] then http_status reply = Some 400 \<and> s' = s
        else http_status reply = Some 204 \<and> revocation s' = insert tokenID (revocation s)"
    by (simp add: capability_revoke_def RevokeToken_def Revoke_def)
qed

end
