(* ===== verification/Anchor.thy ===== *)
theory Anchor
  imports Merkle_Tree Go_Strings
begin

text \<open>
  Package \<open>internal/anchor\<close>: what is committed on chain (\<open>anchor.go\<close>), the in-memory client and the
  client that runs \<open>cast send\<close> (\<open>client.go\<close>, \<open>cast_parse.go\<close>), the committer that publishes the
  head of the tree (\<open>committer.go\<close>) and the endpoint that serves the last anchor.  The process
  \<open>cast\<close> and the decoding of its JSON output are arguments.
\<close>

section \<open>Anchors\<close>

record Anchor =
  ID :: u64
  TreeSize :: u64
  anc_Root :: bytes
  Timestamp :: int
  BlockNumber :: u64
  TxHash :: string

definition RootHex :: "Anchor \<Rightarrow> string" where
  "RootHex a = ''0x'' @ hexEncode (anc_Root a)"

record CommitReceipt =
  rc_ID :: u64
  rc_TxHash :: string
  rc_BlockNumber :: u64

text \<open>
  \<open>ErrCommitFailed\<close> carries size, root and the client's error, whose text is all that remains of it:
  the wrapping uses \<open>%v\<close>, so \<open>errors.Is\<close> (\<open>is_error\<close>) sees only the outer error.
\<close>

datatype anchor_error =
    ErrTreeShrank | ErrInvalidRoot | ErrEmptyTree | ErrNoAnchorYet
  | ErrCommitFailed u64 bytes anchor_error | ErrClient string

definition formatErr :: "anchor_error \<Rightarrow> u64 \<Rightarrow> bytes \<Rightarrow> anchor_error" where
  "formatErr e treeSize root = ErrCommitFailed treeSize root e"

definition is_error :: "anchor_error \<Rightarrow> anchor_error \<Rightarrow> bool" where
  "is_error e target \<longleftrightarrow> e = target"

definition validateCommit :: "u64 \<Rightarrow> bytes \<Rightarrow> anchor_error option" where
  "validateCommit treeSize root =
    (if treeSize = 0 then Some ErrEmptyTree
     else if length root \<noteq> HashSize then Some ErrInvalidRoot
     else None)"

text \<open>The read-side cache: no anchor yet, or the last one set.\<close>

type_synonym latest_store = "Anchor option"

definition NewLatestStore :: latest_store where "NewLatestStore = None"

definition LatestStore_Set :: "Anchor \<Rightarrow> latest_store \<Rightarrow> latest_store" where
  "LatestStore_Set a s = Some a"

definition Latest :: "latest_store \<Rightarrow> (anchor_error, Anchor) go_result" where
  "Latest s = (case s of None \<Rightarrow> Err ErrNoAnchorYet | Some a \<Rightarrow> Ok a)"

section \<open>The in-memory client\<close>

record fake_client =
  f_anchors :: "Anchor list"
  f_nextID :: u64
  f_failNext :: "anchor_error option"
  f_calls :: nat

definition NewFakeEVMClient :: fake_client where
  "NewFakeEVMClient = \<lparr>f_anchors = [], f_nextID = 0, f_failNext = None, f_calls = 0\<rparr>"

definition SetNextError :: "anchor_error option \<Rightarrow> fake_client \<Rightarrow> fake_client" where
  "SetNextError e f = f\<lparr>f_failNext := e\<rparr>"

definition Calls :: "fake_client \<Rightarrow> nat" where
  "Calls f = f_calls f"

definition Anchors :: "fake_client \<Rightarrow> Anchor list" where
  "Anchors f = map (\<lambda>a. a) (f_anchors f)"

text \<open>\<open>%016x\<close>: sixteen hexadecimal digits, padded with zeros.\<close>

definition hex16 :: "u64 \<Rightarrow> string" where
  "hex16 n = hexEncode (be_bytes64 n)"

definition Fake_Commit ::
  "int \<Rightarrow> u64 \<Rightarrow> bytes \<Rightarrow> fake_client \<Rightarrow> (anchor_error, CommitReceipt) go_result \<times> fake_client" where
  "Fake_Commit ts treeSize root f0 =
    (let f = f0\<lparr>f_calls := Suc (f_calls f0)\<rparr>
     in case validateCommit treeSize root of
       Some e \<Rightarrow> (Err e, f)
     | None \<Rightarrow>
        (case f_failNext f of
           Some e \<Rightarrow> (Err e, f\<lparr>f_failNext := None\<rparr>)
         | None \<Rightarrow>
            (if f_anchors f \<noteq> [] \<and> treeSize \<le> TreeSize (last (f_anchors f))
             then (Err ErrTreeShrank, f)
             else let tx = ''0xfake'' @ hex16 (f_nextID f);
                      a = \<lparr>ID = f_nextID f, TreeSize = treeSize, anc_Root = root, Timestamp = ts,
                        BlockNumber = 0, TxHash = tx\<rparr>
             in (Ok \<lparr>rc_ID = f_nextID f, rc_TxHash = tx, rc_BlockNumber = 0\<rparr>,
                 f\<lparr>f_nextID := f_nextID f + 1, f_anchors := f_anchors f @ [a]\<rparr>))))"

section \<open>The \<open>cast\<close> client\<close>

record cast_client =
  contract :: string
  rpcURL :: string
  privateKey :: string
  castBin :: string

text \<open>The configuration has the same four fields; an empty binary means \<open>cast\<close>.\<close>

definition NewCastClient :: "cast_client \<Rightarrow> (string, cast_client) go_result" where
  "NewCastClient cfg =
    (if contract cfg = [] then Err ''anchor: ContractAddress is required''
     else if rpcURL cfg = [] then Err ''anchor: RPCURL is required''
     else if privateKey cfg = [] then Err ''anchor: PrivateKey is required''
     else Ok (cfg\<lparr>castBin := if castBin cfg = [] then ''cast'' else castBin cfg\<rparr>))"

definition parseHexUint :: "string \<Rightarrow> u64 option" where
  "parseHexUint s0 =
    (let s = TrimSpace s0
     in if s = [] then Some 0
        else if HasPrefix s ''0x'' \<or> HasPrefix s ''0X'' then ParseUint (drop 2 s) 16
        else ParseUint s 10)"

text \<open>\<open>decode\<close> is \<open>json.Unmarshal\<close> into transaction hash and block number.\<close>

definition parseCastSendOutput ::
  "(string \<Rightarrow> (string \<times> string) option) \<Rightarrow> string \<Rightarrow> (anchor_error, CommitReceipt) go_result" where
  "parseCastSendOutput decode raw =
    (case decode raw of
       None \<Rightarrow> Err (ErrClient ''decode json'')
     | Some (hash, block) \<Rightarrow>
        (if hash = [] then Err (ErrClient ''receipt missing transactionHash'')
         else case parseHexUint block of
           None \<Rightarrow> Err (ErrClient ''blockNumber'')
         | Some bn \<Rightarrow> Ok \<lparr>rc_ID = 0, rc_TxHash = hash, rc_BlockNumber = bn\<rparr>))"

definition unix_seconds :: "int \<Rightarrow> i64" where
  "unix_seconds ts = word_of_int (ts div 1000000000)"

text \<open>The command line and the extra environment of the process.\<close>

definition cast_args :: "cast_client \<Rightarrow> u64 \<Rightarrow> bytes \<Rightarrow> i64 \<Rightarrow> string list" where
  "cast_args c treeSize root unix =
    [''send'', ''--rpc-url'', rpcURL c, ''--json'', contract c, ''commit(uint64,bytes32,uint64)'',
     show_u64 treeSize, ''0x'' @ hexEncode root, show_u64 unix]"

definition cast_env :: "cast_client \<Rightarrow> string list" where
  "cast_env c = [''ETH_PRIVATE_KEY='' @ privateKey c]"

text \<open>\<open>run\<close> is the process: environment, name and arguments to its combined output or a failure.\<close>

type_synonym command_runner = "string list \<Rightarrow> string \<Rightarrow> string list \<Rightarrow> (string, string) go_result"

definition Cast_Commit ::
  "command_runner \<Rightarrow> (string \<Rightarrow> (string \<times> string) option) \<Rightarrow> int \<Rightarrow> u64 \<Rightarrow> bytes \<Rightarrow> cast_client \<Rightarrow>
    (anchor_error, CommitReceipt) go_result" where
  "Cast_Commit run decode ts treeSize root c =
    (case validateCommit treeSize root of
       Some e \<Rightarrow> Err e
     | None \<Rightarrow>
        (let unix = unix_seconds ts
         in if unix <s 0 then Err (ErrClient ''anchor: timestamp before unix epoch'')
            else case run (cast_env c) (castBin c) (cast_args c treeSize root unix) of
              Err e \<Rightarrow> Err (ErrClient ''cast send'')
            | Panic \<Rightarrow> Panic
            | Ok out \<Rightarrow>
               (case parseCastSendOutput decode out of
                  Err e \<Rightarrow> Err (ErrClient ''cast send: parse receipt'')
                | Panic \<Rightarrow> Panic
                | Ok receipt \<Rightarrow> Ok receipt)))"

text \<open>The process environment: what it inherits, then the secret entries.\<close>

definition defaultCastRunner_env :: "string list \<Rightarrow> string list \<Rightarrow> string list" where
  "defaultCastRunner_env environ env = environ @ env"

section \<open>The committer\<close>

record committer =
  lastCommitted :: u64
  latest :: latest_store

type_synonym 'c evm_commit =
  "int \<Rightarrow> u64 \<Rightarrow> bytes \<Rightarrow> 'c \<Rightarrow> (anchor_error, CommitReceipt) go_result \<times> 'c"

text \<open>The three dependencies must be given; a non-positive interval means 15 minutes.\<close>

definition NewCommitter ::
  "bool \<Rightarrow> bool \<Rightarrow> latest_store option \<Rightarrow> int \<Rightarrow> (string, committer \<times> int) go_result" where
  "NewCommitter has_tree has_client store interval =
    (if \<not> has_tree then Err ''anchor: tree is required''
     else if \<not> has_client then Err ''anchor: evm client is required''
     else case store of
       None \<Rightarrow> Err ''anchor: latest store is required''
     | Some s \<Rightarrow> Ok (\<lparr>lastCommitted = 0, latest = s\<rparr>,
         if interval \<le> 0 then 15 * 60 * 1000000000 else interval))"

definition commit ::
  "'c evm_commit \<Rightarrow> int \<Rightarrow> u64 \<times> bytes \<Rightarrow> committer \<times> 'c \<Rightarrow>
    (anchor_error, Anchor) go_result \<times> committer \<times> 'c" where
  "commit send now snapshot st =
    (let (c, client) = st; (size, root) = snapshot
     in if size = 0 then (Err ErrEmptyTree, c, client)
        else case validateCommit size root of
          Some e \<Rightarrow> (Err e, c, client)
        | None \<Rightarrow>
           (if size \<le> lastCommitted c then (Err ErrTreeShrank, c, client)
            else case send now size root client of
              (Err e, client') \<Rightarrow> (Err (formatErr e size root), c, client')
            | (Panic, client') \<Rightarrow> (Panic, c, client')
            | (Ok receipt, client') \<Rightarrow>
               (let a = \<lparr>ID = rc_ID receipt, TreeSize = size, anc_Root = root, Timestamp = now,
                     BlockNumber = rc_BlockNumber receipt, TxHash = rc_TxHash receipt\<rparr>
                in (Ok a, \<lparr>lastCommitted = size, latest = LatestStore_Set a (latest c)\<rparr>, client'))))"

definition CommitOnce ::
  "'c evm_commit \<Rightarrow> int \<Rightarrow> u64 \<times> bytes \<Rightarrow> committer \<times> 'c \<Rightarrow>
    (anchor_error, Anchor) go_result \<times> committer \<times> 'c" where
  "CommitOnce send now snapshot st = commit send now snapshot st"

definition LastCommittedSize :: "committer \<Rightarrow> u64" where
  "LastCommittedSize c = lastCommitted c"

text \<open>
  The goroutine: one commit at the start, then one per tick until it is stopped or its context
  ends.  Each tick carries the clock's reading and the snapshot of the tree at that moment.
\<close>

datatype loop_event = Tick int "u64 \<times> bytes" | StopSignal | CtxDone

fun loop_ticks :: "'c evm_commit \<Rightarrow> loop_event list \<Rightarrow> committer \<times> 'c \<Rightarrow> committer \<times> 'c" where
  "loop_ticks send [] st = st"
| "loop_ticks send (Tick now snapshot # evs) st =
    loop_ticks send evs (snd (commit send now snapshot st))"
| "loop_ticks send (StopSignal # evs) st = st"
| "loop_ticks send (CtxDone # evs) st = st"

definition loop ::
  "'c evm_commit \<Rightarrow> int \<times> u64 \<times> bytes \<Rightarrow> loop_event list \<Rightarrow> committer \<times> 'c \<Rightarrow> committer \<times> 'c" where
  "loop send start evs st = loop_ticks send evs (snd (commit send (fst start) (snd start) st))"

text \<open>
  \<open>Start\<close> launches the goroutine at most once (the Boolean says whether this call does).  \<open>Stop\<close>
  closes the stop channel at most once and reports whether the loop ends before the timeout
  (\<open>in_time\<close>: the goroutine, if there is one, sees the signal before then).
\<close>

record lifecycle =
  launched :: bool
  stop_closed :: bool
  loop_done :: bool

definition new_lifecycle :: lifecycle where
  "new_lifecycle = \<lparr>launched = False, stop_closed = False, loop_done = False\<rparr>"

definition Start :: "lifecycle \<Rightarrow> bool \<times> lifecycle" where
  "Start l = (\<not> launched l, l\<lparr>launched := True\<rparr>)"

definition Stop :: "bool \<Rightarrow> lifecycle \<Rightarrow> bool \<times> lifecycle" where
  "Stop in_time l =
    (let l' = l\<lparr>stop_closed := True, loop_done := loop_done l \<or> launched l \<and> in_time\<rparr>
     in (loop_done l', l'))"

section \<open>The endpoint\<close>

record latestResponse =
  lr_ID :: u64
  lr_TreeSize :: u64
  lr_RootHex :: string
  lr_TimestampMs :: i64
  lr_BlockNumber :: u64
  lr_TxHash :: string

definition anchor_latest :: "latest_store \<Rightarrow> latestResponse http_reply" where
  "anchor_latest s =
    (case Latest s of
       Err e \<Rightarrow> if e = ErrNoAnchorYet then ErrorReply 404 ''no_anchor_yet'' else ErrorReply 500 ''internal''
     | Panic \<Rightarrow> Aborted
     | Ok a \<Rightarrow> Reply 200 \<lparr>lr_ID = ID a, lr_TreeSize = TreeSize a,
         lr_RootHex = ''0x'' @ hexEncode (anc_Root a), lr_TimestampMs = word_of_int (Timestamp a div 1000000),
         lr_BlockNumber = BlockNumber a, lr_TxHash = TxHash a\<rparr>)"

section \<open>The client's contract\<close>

text \<open>
  What the committer may assume of a client: its record of commits grows by exactly the committed
  pair on success and not at all otherwise, sizes only grow, and a commit does not panic.
\<close>

locale evm_client =
  fixes send :: "'c evm_commit" and recorded :: "'c \<Rightarrow> (u64 \<times> bytes) list"
  assumes send_ok: "send ts n r c = (Ok rc, c') \<Longrightarrow>
      recorded c' = recorded c @ [(n, r)] \<and> (recorded c \<noteq> [] \<longrightarrow> fst (last (recorded c)) < n)"
    and send_err: "send ts n r c = (Err e, c') \<Longrightarrow> recorded c' = recorded c"
    and send_no_panic: "send ts n r c \<noteq> (Panic, c')"

text \<open>
  The state in which the committer and its client agree: sizes grow strictly, no commit is larger than the tree
  has been, the last commit is remembered and served.
\<close>

definition in_step :: "('c \<Rightarrow> (u64 \<times> bytes) list) \<Rightarrow> committer \<times> 'c \<Rightarrow> bool" where
  "in_step recorded st \<longleftrightarrow>
    sorted_wrt (<) (map fst (recorded (snd st))) \<and>
    (if recorded (snd st) = [] then lastCommitted (fst st) = 0 \<and> latest (fst st) = None
     else lastCommitted (fst st) = fst (last (recorded (snd st))) \<and>
       (\<exists>a. latest (fst st) = Some a \<and> (TreeSize a, anc_Root a) = last (recorded (snd st))))"

lemma sorted_snoc: "sorted_wrt (<) xs \<Longrightarrow> (xs \<noteq> [] \<longrightarrow> last xs < x) \<Longrightarrow> sorted_wrt (<) (xs @ [x])"
  for x :: u64
proof -
  assume s: "sorted_wrt (<) xs" and l: "xs \<noteq> [] \<longrightarrow> last xs < x"
  have "y < x" if "y \<in> set xs" for y
  proof -
    from that have "xs \<noteq> []" by auto
    then have xs: "xs = butlast xs @ [last xs]" by simp
    then have "y = last xs \<or> y \<in> set (butlast xs)" using that by (metis Un_iff empty_iff insert_iff list.set set_append)
    moreover have "\<forall>z \<in> set (butlast xs). z < last xs"
      using s xs by (metis sorted_wrt_append list.set_intros(1))
    ultimately show ?thesis using l \<open>xs \<noteq> []\<close> by auto
  qed
  with s show ?thesis by (simp add: sorted_wrt_append)
qed

context evm_client begin

lemma commit_cases:
  obtains (sent) a c' client' where "commit send now snap (c, client) = (Ok a, c', client')"
      "recorded client' = recorded client @ [snap]" "0 < fst snap" "length (snd snap) = 32"
      "lastCommitted c < fst snap" "recorded client \<noteq> [] \<longrightarrow> fst (last (recorded client)) < fst snap"
      "c' = \<lparr>lastCommitted = fst snap, latest = Some a\<rparr>" "(TreeSize a, anc_Root a) = snap"
  | (refused) e client' where "commit send now snap (c, client) = (Err e, c, client')"
      "recorded client' = recorded client"
proof -
  obtain n r where snap: "snap = (n, r)" by (cases snap)
  obtain res client' where s: "send now n r client = (res, client')" by (cases "send now n r client")
  consider "n = 0" | "n \<noteq> 0" "length r \<noteq> 32" | "n \<noteq> 0" "length r = 32" "n \<le> lastCommitted c"
    | (go) "n \<noteq> 0" "length r = 32" "\<not> n \<le> lastCommitted c"
    by blast
  then show thesis
  proof cases
    case 1
    then show ?thesis by (intro refused [of ErrEmptyTree client]) (simp_all add: commit_def snap)
  next
    case 2
    then show ?thesis
      by (intro refused [of ErrInvalidRoot client]) (simp_all add: commit_def snap validateCommit_def HashSize_def)
  next
    case 3
    then show ?thesis
      by (intro refused [of ErrTreeShrank client]) (simp_all add: commit_def snap validateCommit_def HashSize_def)
  next
    case go
    have valid: "validateCommit n r = None" using go by (simp add: validateCommit_def HashSize_def)
    show ?thesis
    proof (cases res)
      case (Ok rc)
      let ?a = "\<lparr>ID = rc_ID rc, TreeSize = n, anc_Root = r, Timestamp = now,
        BlockNumber = rc_BlockNumber rc, TxHash = rc_TxHash rc\<rparr>"
      have "commit send now snap (c, client) = (Ok ?a, \<lparr>lastCommitted = n, latest = Some ?a\<rparr>, client')"
        using go valid s Ok by (simp add: commit_def snap LatestStore_Set_def Let_def)
      moreover note send_ok [of now n r client rc client'] s Ok
      ultimately show ?thesis
        by (intro sent [of ?a _ client']) (use go snap in \<open>simp_all add: word_gt_0 not_le\<close>)
    next
      case (Err e)
      have "commit send now snap (c, client) = (Err (formatErr e n r), c, client')"
        using go valid s Err by (simp add: commit_def snap)
      moreover note send_err [of now n r client e client'] s Err
      ultimately show ?thesis by (intro refused [of "formatErr e n r" client']) simp_all
    next
      case Panic
      then show ?thesis using s send_no_panic by simp
    qed
  qed
qed

text \<open>
  When the client started empty and only this committer uses it, the committer's own check is the
  client's, and the two stay in step.
\<close>

lemma commit_in_step:
  assumes "in_step recorded st"
  shows "in_step recorded (snd (commit send now snap st))"
proof -
  obtain c client where st: "st = (c, client)" by (cases st)
  show ?thesis
  proof (cases rule: commit_cases [of now snap c client])
    case (sent a c' client')
    have "sorted_wrt (<) (map fst (recorded client) @ [fst snap])"
      using assms sent(6) by (intro sorted_snoc) (auto simp: in_step_def st last_map)
    with sent st show ?thesis by (simp add: in_step_def)
  next
    case (refused e client')
    have "in_step recorded (c, client')" using assms unfolding in_step_def st refused(2) fst_conv snd_conv .
    with refused st show ?thesis by simp
  qed
qed

lemma loop_ticks_in_step: "in_step recorded st \<Longrightarrow> in_step recorded (loop_ticks send evs st)"
proof (induction evs arbitrary: st)
  case (Cons ev evs)
  then show ?case by (cases ev) (simp_all add: commit_in_step)
qed simp

lemma loop_in_step: "in_step recorded st \<Longrightarrow> in_step recorded (loop send start evs st)"
  by (simp add: loop_def loop_ticks_in_step commit_in_step)

text \<open>Every recorded pair was recorded before or is the snapshot of a tick.\<close>

fun tick_snapshots :: "loop_event list \<Rightarrow> (u64 \<times> bytes) list" where
  "tick_snapshots [] = []"
| "tick_snapshots (Tick now snap # evs) = snap # tick_snapshots evs"
| "tick_snapshots (_ # evs) = []"

lemma commit_recorded:
  "set (recorded (snd (snd (commit send now snap st)))) \<subseteq> insert snap (set (recorded (snd st)))"
proof -
  obtain c client where st: "st = (c, client)" by (cases st)
  show ?thesis by (rule commit_cases [of now snap c client]) (auto simp: st)
qed

lemma loop_ticks_recorded:
  "set (recorded (snd (loop_ticks send evs st))) \<subseteq> set (recorded (snd st)) \<union> set (tick_snapshots evs)"
proof (induction evs arbitrary: st)
  case (Cons ev evs)
  show ?case
  proof (cases ev)
    case (Tick now snap)
    with Cons [of "snd (commit send now snap st)"] commit_recorded [of now snap st] show ?thesis by auto
  qed simp_all
qed simp

end

text \<open>The in-memory client keeps the contract.\<close>

definition fake_recorded :: "fake_client \<Rightarrow> (u64 \<times> bytes) list" where
  "fake_recorded f = map (\<lambda>a. (TreeSize a, anc_Root a)) (f_anchors f)"

interpretation fake: evm_client Fake_Commit fake_recorded
proof
  fix ts n r c rc c' e
  show "Fake_Commit ts n r c = (Ok rc, c') \<Longrightarrow>
      fake_recorded c' = fake_recorded c @ [(n, r)] \<and>
      (fake_recorded c \<noteq> [] \<longrightarrow> fst (last (fake_recorded c)) < n)"
    by (auto simp: Fake_Commit_def fake_recorded_def Let_def last_map not_le split: option.splits if_splits)
  show "Fake_Commit ts n r c = (Err e, c') \<Longrightarrow> fake_recorded c' = fake_recorded c"
    by (auto simp: Fake_Commit_def fake_recorded_def Let_def split: option.splits if_splits)
  show "Fake_Commit ts n r c \<noteq> (Panic, c')"
    by (simp add: Fake_Commit_def Let_def split: option.split)
qed

section \<open>Clients that answer\<close>

text \<open>A client that commits whatever it is not entitled to refuse, while it is healthy.\<close>

locale live_evm_client = evm_client send recorded
  for send :: "'c evm_commit" and recorded :: "'c \<Rightarrow> (u64 \<times> bytes) list" +
  fixes healthy :: "'c \<Rightarrow> bool"
  assumes send_healthy: "\<lbrakk>healthy c; n \<noteq> 0; length r = 32; recorded c \<noteq> [] \<longrightarrow> fst (last (recorded c)) < n\<rbrakk> \<Longrightarrow>
      \<exists>rc c'. send ts n r c = (Ok rc, c')"
    and healthy_kept: "send ts n r c = (res, c') \<Longrightarrow> healthy c \<Longrightarrow> healthy c'"
begin

lemma healthy_commit: "healthy (snd st) \<Longrightarrow> healthy (snd (snd (commit send now snap st)))"
  using healthy_kept
  by (auto simp: commit_def Let_def split_def split: option.split go_result.split) (metis prod.collapse)+

text \<open>In step and healthy, a snapshot larger than the last commit is committed.\<close>

lemma commit_goes_through:
  assumes "in_step recorded (c, client)" "healthy client" "lastCommitted c < fst snap" "length (snd snap) = 32"
  obtains a client' where "commit send now snap (c, client) = (Ok a, \<lparr>lastCommitted = fst snap, latest = Some a\<rparr>, client')"
    "(TreeSize a, anc_Root a) = snap"
proof -
  obtain n r where snap: "snap = (n, r)" by (cases snap)
  have n: "n \<noteq> 0" using assms(3) snap by auto
  have "recorded client \<noteq> [] \<longrightarrow> fst (last (recorded client)) < n"
    using assms(1,3) snap by (auto simp: in_step_def)
  moreover have "length r = 32" using assms(4) snap by simp
  ultimately obtain rc client' where "send now n r client = (Ok rc, client')"
    using send_healthy [OF assms(2) n] by blast
  then have "fst (commit send now snap (c, client)) \<noteq> Err e" for e
    using n assms(3,4) snap by (auto simp: commit_def validateCommit_def HashSize_def Let_def)
  then show thesis
    using that by (cases rule: commit_cases [of now snap c client]) auto
qed

end

interpretation live_fake: live_evm_client Fake_Commit fake_recorded "\<lambda>f. f_failNext f = None"
proof
  fix c :: fake_client and n :: u64 and r :: bytes and ts
  show "\<lbrakk>f_failNext c = None; n \<noteq> 0; length r = 32; fake_recorded c \<noteq> [] \<longrightarrow> fst (last (fake_recorded c)) < n\<rbrakk> \<Longrightarrow>
      \<exists>rc c'. Fake_Commit ts n r c = (Ok rc, c')"
    by (auto simp: Fake_Commit_def fake_recorded_def validateCommit_def HashSize_def Let_def last_map)
next
  fix c c' :: fake_client and n :: u64 and r :: bytes and ts res
  show "Fake_Commit ts n r c = (res, c') \<Longrightarrow> f_failNext c = None \<Longrightarrow> f_failNext c' = None"
    by (auto simp: Fake_Commit_def Let_def split: option.splits if_splits)
qed

end
