(* ===== verification/Http_Api.thy ===== *)
theory Http_Api
  imports Auditlog_Http Capability_Http Anchor
begin

text \<open>
  Package \<open>internal/httpapi\<close>: the key endpoints, the Merkle head, the route table of \<open>Router\<close>,
  the CORS and logging middleware, and one request through all of it.  The router library
  (\<open>chi\<close>) is an argument, a function from the registered routes and a request line to an
  entry of the table and the value of its path parameter.  A request body is what the JSON decoder made of
  it for the handler that reads it; clock, random source and operating system answer through a
  record of their readings.
\<close>

section \<open>Requests, replies and the state behind the handlers\<close>

record http_request =
  rq_method :: string
  rq_path :: string
  rq_origin :: string
  rq_since :: string
  rq_create :: "string option"
  rq_append :: "appendRequest option"
  rq_issue :: "cap_issue_request option"
  rq_verify :: "cap_verify_request option"

datatype payload =
    KeyResponse string string
  | AgentIDs "string list"
  | HealthBody i64
  | HeadBody u64 string
  | AppendBody "(string \<times> json) list" bool
  | StreamBody "event list"
  | IssuedBody string string string
  | ValidBody string
  | PubkeyBody string
  | LatestBody latestResponse
  | NoBody

record host =
  h_now :: instant
  h_now' :: instant
  h_gen :: "key_pair option"
  h_uuid :: string
  h_io :: leaf_io

record world =
  w_keys :: memory
  w_pipe :: pipeline
  w_cap :: service
  w_latest :: latest_store

text \<open>The primitives of \<open>crypto/ed25519\<close> and the decoder of token claims.\<close>

record prims =
  p_verify :: ed_verify
  p_sign :: ed_sign
  p_unmarshal :: "string \<Rightarrow> token option"

section \<open>The key endpoints\<close>

fun writeStoreError :: "keystore_error \<Rightarrow> 'a http_reply" where
  "writeStoreError ErrNotFound = ErrorReply 404 ''not_found''"
| "writeStoreError ErrAlreadyExists = ErrorReply 409 ''already_exists''"
| "writeStoreError _ = ErrorReply 500 ''internal''"

definition handleMerkleHead :: "tree \<Rightarrow> payload http_reply" where
  "handleMerkleHead t = (let (size, root) = Snapshot t in Reply 200 (HeadBody size (''0x'' @ hexEncode root)))"

definition handleHealth :: "payload http_reply" where
  "handleHealth = Reply 200 (HealthBody schema_version_const)"

definition handleCreate ::
  "key_pair option \<Rightarrow> string option \<Rightarrow> memory \<Rightarrow> payload http_reply \<times> memory" where
  "handleCreate gen body m =
    (case body of
       None \<Rightarrow> (ErrorReply 400 ''invalid_json'', m)
     | Some agentID \<Rightarrow>
        (if agentID = [] then (ErrorReply 400 ''missing_field'', m)
         else case Memory_Create gen m agentID of
           (Ok pub, m') \<Rightarrow> (Reply 201 (KeyResponse agentID (hexEncode pub)), m')
         | (Err e, m') \<Rightarrow> (writeStoreError e, m')
         | (Panic, m') \<Rightarrow> (Aborted, m')))"

text \<open>\<open>POST /v1/keys/agents\<close> repeats \<open>POST /v1/keys\<close>.\<close>

definition handleAgents ::
  "key_pair option \<Rightarrow> string option \<Rightarrow> memory \<Rightarrow> payload http_reply \<times> memory" where
  "handleAgents gen body m =
    (case body of
       None \<Rightarrow> (ErrorReply 400 ''invalid_json'', m)
     | Some agentID \<Rightarrow>
        (if agentID = [] then (ErrorReply 400 ''missing_field'', m)
         else case Memory_Create gen m agentID of
           (Ok pub, m') \<Rightarrow> (Reply 201 (KeyResponse agentID (hexEncode pub)), m')
         | (Err e, m') \<Rightarrow> (writeStoreError e, m')
         | (Panic, m') \<Rightarrow> (Aborted, m')))"

definition handleGet :: "string \<Rightarrow> memory \<Rightarrow> payload http_reply" where
  "handleGet agentID m =
    (case Memory_Get m agentID of
       Ok (pub, priv) \<Rightarrow> Reply 200 (KeyResponse agentID (hexEncode pub))
     | Err e \<Rightarrow> writeStoreError e
     | Panic \<Rightarrow> Aborted)"

definition handleGetAgentPubKey :: "string \<Rightarrow> memory \<Rightarrow> payload http_reply" where
  "handleGetAgentPubKey agentID m =
    (case Memory_Get m agentID of
       Ok (pub, priv) \<Rightarrow> Reply 200 (KeyResponse agentID (hexEncode pub))
     | Err e \<Rightarrow> writeStoreError e
     | Panic \<Rightarrow> Aborted)"

definition handleList :: "memory \<Rightarrow> payload http_reply" where
  "handleList m = Reply 200 (AgentIDs (Memory_List m))"

definition handleDelete :: "string \<Rightarrow> memory \<Rightarrow> payload http_reply \<times> memory" where
  "handleDelete agentID m =
    (case Memory_Delete m agentID of
       (Some e, m') \<Rightarrow> (writeStoreError e, m')
     | (None, m') \<Rightarrow> (NoContent 204, m'))"

section \<open>The server and its routes\<close>

text \<open>Which of the optional parts are mounted, and the CORS allowlist.\<close>

record server =
  has_pipeline :: bool
  has_capability :: bool
  has_anchor :: bool
  has_tree :: bool
  corsOrigins :: "string list"

definition NewServer :: server where
  "NewServer = \<lparr>has_pipeline = False, has_capability = False, has_anchor = False, has_tree = False,
     corsOrigins = []\<rparr>"

definition WithAuditPipeline :: "bool \<Rightarrow> server \<Rightarrow> server" where
  "WithAuditPipeline p s = s\<lparr>has_pipeline := p\<rparr>"

definition WithCapability :: "bool \<Rightarrow> server \<Rightarrow> server" where
  "WithCapability c s = s\<lparr>has_capability := c\<rparr>"

definition WithAnchor :: "bool \<Rightarrow> server \<Rightarrow> server" where
  "WithAnchor given s = s\<lparr>has_anchor := given\<rparr>"

definition WithMerkleTree :: "bool \<Rightarrow> server \<Rightarrow> server" where
  "WithMerkleTree t s = s\<lparr>has_tree := t\<rparr>"

definition WithCORS :: "string list \<Rightarrow> server \<Rightarrow> server" where
  "WithCORS origins s = s\<lparr>corsOrigins := origins\<rparr>"

datatype endpoint =
    E_Health | E_List | E_Create | E_Agents | E_AgentPubKey | E_Get | E_Delete | E_MerkleHead
  | E_Append | E_Events | E_Issue | E_Verify | E_Revoke | E_SigningPubkey | E_Latest

type_synonym route = "string \<times> string \<times> endpoint"

text \<open>\<open>r.Route\<close> puts its prefix before the patterns registered inside.\<close>

definition Route :: "string \<Rightarrow> route list \<Rightarrow> route list" where
  "Route base rs = map (\<lambda>(m, pat, e). (m, base @ pat, e)) rs"

definition audit_Mount :: "route list" where
  "audit_Mount =
    [(''POST'', ''/v1/audit/append'', E_Append), (''GET'', ''/v1/audit/events'', E_Events)]"

definition capability_Mount :: "route list" where
  "capability_Mount = Route ''/v1/tokens''
    [(''POST'', ''/'', E_Issue), (''POST'', ''/verify'', E_Verify),
     (''POST'', ''/{tokenID}/revoke'', E_Revoke), (''GET'', ''/signing-pubkey'', E_SigningPubkey)]"

definition anchor_Mount :: "route list" where
  "anchor_Mount = Route ''/v1/anchor'' [(''GET'', ''/latest'', E_Latest)]"

definition Router :: "server \<Rightarrow> route list" where
  "Router s =
    [(''GET'', ''/health'', E_Health)]
    @ Route ''/v1/keys''
      [(''GET'', ''/'', E_List), (''POST'', ''/'', E_Create), (''POST'', ''/agents'', E_Agents),
       (''GET'', ''/agents/{agentID}/pubkey'', E_AgentPubKey), (''GET'', ''/{agentID}'', E_Get),
       (''DELETE'', ''/{agentID}'', E_Delete)]
    @ (if has_tree s then [(''GET'', ''/v1/merkle/head'', E_MerkleHead)] else [])
    @ (if has_pipeline s then audit_Mount else [])
    @ (if has_capability s then capability_Mount else [])
    @ (if has_anchor s then anchor_Mount else [])"

section \<open>One handler call\<close>

text \<open>
  The capability service reports its denials to the pipeline's \<open>RecordRejection\<close>, each at the
  reading of the clock at that moment (here one reading for the request).
\<close>

definition record_rejections :: "instant \<Rightarrow> rejected_call list \<Rightarrow> pipeline \<Rightarrow> pipeline" where
  "record_rejections now calls p = fold (\<lambda>(ag, ty, tg, reason). RecordRejection now ag ty tg reason) calls p"

text \<open>
  A stream served in one step is one whose client leaves at once: the backlog is written and the
  subscription cancelled.  Longer streams are the runs of \<open>Auditlog_Steps\<close>.  The handlers write to
  a \<open>statusRecorder\<close>, which has a \<open>Flush\<close> of its own, so the stream never fails for want of one.
\<close>

definition handle ::
  "prims \<Rightarrow> host \<Rightarrow> endpoint \<Rightarrow> string \<Rightarrow> http_request \<Rightarrow> world \<Rightarrow> payload http_reply \<times> world" where
  "handle pr h e arg rq w =
    (case e of
       E_Health \<Rightarrow> (handleHealth, w)
     | E_List \<Rightarrow> (handleList (w_keys w), w)
     | E_Create \<Rightarrow> (let (r, m) = handleCreate (h_gen h) (rq_create rq) (w_keys w) in (r, w\<lparr>w_keys := m\<rparr>))
     | E_Agents \<Rightarrow> (let (r, m) = handleAgents (h_gen h) (rq_create rq) (w_keys w) in (r, w\<lparr>w_keys := m\<rparr>))
     | E_AgentPubKey \<Rightarrow> (handleGetAgentPubKey arg (w_keys w), w)
     | E_Get \<Rightarrow> (handleGet arg (w_keys w), w)
     | E_Delete \<Rightarrow> (let (r, m) = handleDelete arg (w_keys w) in (r, w\<lparr>w_keys := m\<rparr>))
     | E_MerkleHead \<Rightarrow> (handleMerkleHead (p_tree (w_pipe w)), w)
     | E_Append \<Rightarrow>
        (let (r, p) = audit_append (p_verify pr) (Memory_Get (w_keys w)) (h_now h) (h_now' h) (h_io h)
               (rq_append rq) (w_pipe w)
         in (map_http_reply (\<lambda>(fs, i). AppendBody fs i) r, w\<lparr>w_pipe := p\<rparr>))
     | E_Events \<Rightarrow>
        (let r = audit_stream True (rq_since rq) (w_pipe w) [] (length (events (w_pipe w)));
             (sid, p) = Subscribe (w_pipe w)
         in (map_http_reply StreamBody r,
             if http_status r = Some 200 then w\<lparr>w_pipe := cancel sid p\<rparr> else w))
     | E_Issue \<Rightarrow>
        (map_http_reply (\<lambda>(tid, claims, sig). IssuedBody tid claims sig)
           (capability_issue (p_sign pr) (Memory_Get (w_keys w)) (wall (h_now h)) (h_uuid h) (rq_issue rq) (w_cap w)), w)
     | E_Verify \<Rightarrow>
        (let (r, calls) = capability_verify (p_verify pr) (p_unmarshal pr) (wall (h_now h)) (rq_verify rq) (w_cap w)
         in (map_http_reply ValidBody r, w\<lparr>w_pipe := record_rejections (h_now' h) calls (w_pipe w)\<rparr>))
     | E_Revoke \<Rightarrow>
        (let (r, c) = capability_revoke arg (w_cap w) in (map_http_reply (\<lambda>_. NoBody) r, w\<lparr>w_cap := c\<rparr>))
     | E_SigningPubkey \<Rightarrow> (map_http_reply PubkeyBody (capability_pubkey (w_cap w)), w)
     | E_Latest \<Rightarrow> (map_http_reply LatestBody (anchor_latest (w_latest w)), w))"

section \<open>Middleware\<close>

text \<open>What reaches the client, and the line that \<open>logRequests\<close> writes (none when a handler panics).\<close>

record http_response =
  resp_headers :: "(string \<times> string) list"
  resp_reply :: "payload http_reply"
  resp_log :: "(string \<times> string \<times> nat) option"

text \<open>The recorder starts at 200 and keeps the status written last.\<close>

definition statusRecorder :: "payload http_reply \<Rightarrow> nat option" where
  "statusRecorder r = http_status r"

definition logRequests ::
  "(http_request \<Rightarrow> world \<Rightarrow> payload http_reply \<times> world) \<Rightarrow> http_request \<Rightarrow> world \<Rightarrow> http_response \<times> world"
where
  "logRequests inner rq w =
    (let (r, w') = inner rq w
     in (\<lparr>resp_headers = [], resp_reply = r,
           resp_log = map_option (\<lambda>st. (rq_method rq, rq_path rq, st)) (statusRecorder r)\<rparr>, w'))"

definition cors_headers :: "string list \<Rightarrow> string \<Rightarrow> (string \<times> string) list" where
  "cors_headers allowed origin =
    (if origin \<noteq> [] \<and> origin \<in> set allowed
     then [(''Access-Control-Allow-Origin'', origin), (''Vary'', ''Origin''),
           (''Access-Control-Allow-Methods'', ''GET, POST, DELETE, OPTIONS''),
           (''Access-Control-Allow-Headers'', ''Content-Type''), (''Access-Control-Max-Age'', ''300'')]
     else [])"

definition cors ::
  "server \<Rightarrow> (http_request \<Rightarrow> world \<Rightarrow> http_response \<times> world) \<Rightarrow> http_request \<Rightarrow> world \<Rightarrow> http_response \<times> world"
where
  "cors s inner rq w =
    (let hs = cors_headers (corsOrigins s) (rq_origin rq)
     in if rq_method rq = ''OPTIONS''
        then (\<lparr>resp_headers = hs, resp_reply = NoContent 204, resp_log = None\<rparr>, w)
        else let (r, w') = inner rq w in (r\<lparr>resp_headers := hs @ resp_headers r\<rparr>, w'))"

section \<open>The whole router\<close>

text \<open>\<open>Inl\<close> is a status the library answers with itself (no route, or no such method on it).\<close>

type_synonym route_finder = "route list \<Rightarrow> string \<Rightarrow> string \<Rightarrow> nat + endpoint \<times> string"

definition dispatch ::
  "route_finder \<Rightarrow> prims \<Rightarrow> server \<Rightarrow> host \<Rightarrow> http_request \<Rightarrow> world \<Rightarrow> payload http_reply \<times> world" where
  "dispatch chi pr s h rq w =
    (case chi (Router s) (rq_method rq) (rq_path rq) of
       Inl status \<Rightarrow> (NoContent status, w)
     | Inr (e, arg) \<Rightarrow> handle pr h e arg rq w)"

definition ServeHTTP ::
  "route_finder \<Rightarrow> prims \<Rightarrow> server \<Rightarrow> host \<Rightarrow> http_request \<Rightarrow> world \<Rightarrow> http_response \<times> world" where
  "ServeHTTP chi pr s h =
    (if corsOrigins s = [] then logRequests (dispatch chi pr s h)
     else cors s (logRequests (dispatch chi pr s h)))"

fun serve_all ::
  "route_finder \<Rightarrow> prims \<Rightarrow> server \<Rightarrow> (host \<times> http_request) list \<Rightarrow> world \<Rightarrow> http_response list \<times> world"
where
  "serve_all chi pr s [] w = ([], w)"
| "serve_all chi pr s ((h, rq) # rest) w =
    (let (r, w') = ServeHTTP chi pr s h rq w; (rs, w'') = serve_all chi pr s rest w' in (r # rs, w''))"

end
