(* ===== verification/Http_Claims.thy ===== *)
theory Http_Claims
  imports Http_Api
begin

text \<open>
  What holds of the whole HTTP surface: private keys do not influence any reply, cross-origin
  headers go to the allowlisted origins only, failed requests change nothing but the feed, and
  the key endpoints keep a key pair's public half.
\<close>

section \<open>Independence of the private keys\<close>

definition same_public :: "memory \<Rightarrow> memory \<Rightarrow> bool" where
  "same_public m m' \<longleftrightarrow>
    (\<forall>a. map_option fst (Mapping.lookup m a) = map_option fst (Mapping.lookup m' a))"

text \<open>Worlds and hosts that differ at most in the private halves of the agents' keys.\<close>

definition low_world :: "world \<Rightarrow> world \<Rightarrow> bool" where
  "low_world w w' \<longleftrightarrow> same_public (w_keys w) (w_keys w') \<and> w' = w\<lparr>w_keys := w_keys w'\<rparr>"

definition low_host :: "host \<Rightarrow> host \<Rightarrow> bool" where
  "low_host h h' \<longleftrightarrow> map_option fst (h_gen h) = map_option fst (h_gen h') \<and> h' = h\<lparr>h_gen := h_gen h'\<rparr>"

lemma low_refl [simp]: "low_world w w" "low_host h h"
  by (simp_all add: low_world_def low_host_def same_public_def)

lemma same_public_present:
  "same_public m m' \<Longrightarrow> Mapping.lookup m a = None \<longleftrightarrow> Mapping.lookup m' a = None"
  unfolding same_public_def by (metis map_option_is_None)

lemma same_public_cases:
  assumes "same_public m m'"
  obtains "Mapping.lookup m a = None" "Mapping.lookup m' a = None"
  | pub priv priv' where "Mapping.lookup m a = Some (pub, priv)" "Mapping.lookup m' a = Some (pub, priv')"
proof -
  have eq: "map_option fst (Mapping.lookup m a) = map_option fst (Mapping.lookup m' a)"
    using assms by (simp add: same_public_def)
  show thesis
    by (cases "Mapping.lookup m a"; cases "Mapping.lookup m' a") (use eq that in auto)
qed

lemma same_public_Get:
  assumes "same_public m m'"
  obtains "Memory_Get m a = Err ErrNotFound" "Memory_Get m' a = Err ErrNotFound"
  | pub priv priv' where "Memory_Get m a = Ok (pub, priv)" "Memory_Get m' a = Ok (pub, priv')"
  by (rule same_public_cases [OF assms, of a]) (simp_all add: Memory_Get_def that)

lemma same_public_Create:
  assumes "same_public m m'" "map_option fst gen = map_option fst gen'"
  shows "fst (Memory_Create gen m a) = fst (Memory_Create gen' m' a) \<and>
    same_public (snd (Memory_Create gen m a)) (snd (Memory_Create gen' m' a))"
proof (cases gen)
  case None
  with assms show ?thesis
    by (cases rule: same_public_cases [OF assms(1), of a]) (auto simp: Memory_Create_def)
next
  case (Some k)
  with assms(2) obtain pub priv priv' where "gen = Some (pub, priv)" "gen' = Some (pub, priv')"
    by (cases gen'; cases k) auto
  with assms(1) show ?thesis
    by (cases rule: same_public_cases [OF assms(1), of a])
      (auto simp: Memory_Create_def same_public_def lookup_update')
qed

lemma same_public_Delete:
  assumes "same_public m m'"
  shows "fst (Memory_Delete m a) = fst (Memory_Delete m' a) \<and>
    same_public (snd (Memory_Delete m a)) (snd (Memory_Delete m' a))"
  using assms
  by (cases rule: same_public_cases [OF assms, of a]) (auto simp: Memory_Delete_def same_public_def lookup_delete_all)

lemma same_public_List: "same_public m m' \<Longrightarrow> Memory_List m = Memory_List m'"
proof -
  assume "same_public m m'"
  then have "Mapping.keys m = Mapping.keys m'"
    using same_public_present by (force simp: keys_dom_lookup dom_def)
  then show ?thesis by (simp add: Memory_List_def ordered_keys_def)
qed

lemma same_public_Submit:
  assumes "same_public m m'"
  shows "Submit vfy (Memory_Get m) now now' io act sig p = Submit vfy (Memory_Get m') now now' io act sig p"
proof (cases act)
  case (Some a)
  have "submit_verify vfy (Memory_Get m) now now' act sig = submit_verify vfy (Memory_Get m') now now' act sig"
    by (rule same_public_Get [OF assms, of "AgentID a"])
      (simp_all add: submit_verify_def Some split: option.split)
  then show ?thesis by (simp add: Submit_def)
qed (simp add: Submit_def submit_verify_def)

lemma same_public_append:
  assumes "same_public m m'"
  shows "audit_append vfy (Memory_Get m) now now' io body p = audit_append vfy (Memory_Get m') now now' io body p"
  unfolding audit_append_def same_public_Submit [OF assms] ..

lemma same_public_issue:
  assumes "same_public m m'"
  shows "capability_issue esign (Memory_Get m) clock uuid body s =
    capability_issue esign (Memory_Get m') clock uuid body s"
proof (cases body)
  case (Some req)
  show ?thesis
    by (rule same_public_Get [OF assms, of "cir_AgentID req"])
      (simp_all add: capability_issue_def Some Issue_def split: option.split)
qed (simp add: capability_issue_def)

lemmas key_handler_defs = handleCreate_def handleAgents_def handleGet_def handleGetAgentPubKey_def
  handleList_def handleDelete_def

lemma same_public_handlers:
  assumes "same_public m m'"
  shows "handleGet a m = handleGet a m'" "handleGetAgentPubKey a m = handleGetAgentPubKey a m'"
    "handleList m = handleList m'"
proof -
  show "handleGet a m = handleGet a m'" "handleGetAgentPubKey a m = handleGetAgentPubKey a m'"
    by (rule same_public_Get [OF assms, of a]; simp add: key_handler_defs)+
  show "handleList m = handleList m'"
    by (simp add: handleList_def same_public_List [OF assms])
qed

lemma same_public_creates:
  assumes "same_public m m'" "map_option fst gen = map_option fst gen'"
  shows "fst (handleCreate gen body m) = fst (handleCreate gen' body m') \<and>
      same_public (snd (handleCreate gen body m)) (snd (handleCreate gen' body m'))"
    and "fst (handleAgents gen body m) = fst (handleAgents gen' body m') \<and>
      same_public (snd (handleAgents gen body m)) (snd (handleAgents gen' body m'))"
  using assms(1) same_public_Create [OF assms]
  by (auto simp: key_handler_defs split_def split: option.split go_result.split)

lemma same_public_deletes:
  assumes "same_public m m'"
  shows "fst (handleDelete a m) = fst (handleDelete a m') \<and>
      same_public (snd (handleDelete a m)) (snd (handleDelete a m'))"
  using same_public_Delete [OF assms, of a]
  by (auto simp: key_handler_defs split_def split: option.split)

lemma low_worldI:
  "low_world w w' \<Longrightarrow> same_public m m' \<Longrightarrow> low_world (w\<lparr>w_keys := m\<rparr>) (w'\<lparr>w_keys := m'\<rparr>)"
  by (cases w; cases w') (simp add: low_world_def)

lemma low_world_parts:
  assumes "low_world w w'"
  shows "same_public (w_keys w) (w_keys w')" "w_pipe w' = w_pipe w" "w_cap w' = w_cap w" "w_latest w' = w_latest w"
  using assms by (cases w; cases w'; simp add: low_world_def)+

lemma low_host_parts:
  assumes "low_host h h'"
  shows "map_option fst (h_gen h) = map_option fst (h_gen h')" "h_now h' = h_now h" "h_now' h' = h_now' h"
    "h_uuid h' = h_uuid h" "h_io h' = h_io h"
  using assms by (cases h; cases h'; simp add: low_host_def)+

lemma low_handle:
  assumes "low_world w w'" "low_host h h'"
  shows "fst (handle pr h e arg rq w) = fst (handle pr h' e arg rq w') \<and>
    low_world (snd (handle pr h e arg rq w)) (snd (handle pr h' e arg rq w'))"
proof -
  note parts = low_world_parts [OF assms(1)] low_host_parts [OF assms(2)]
  note keys = parts(1)
  have upd: "low_world (w\<lparr>w_pipe := p\<rparr>) (w'\<lparr>w_pipe := p\<rparr>)" "low_world (w\<lparr>w_cap := c\<rparr>) (w'\<lparr>w_cap := c\<rparr>)"
    for p c using assms(1) by (cases w; cases w'; simp add: low_world_def)+
  show ?thesis
    by (cases e)
      (use assms(1) same_public_creates [OF keys parts(5)] same_public_deletes [OF keys]
        in \<open>simp_all add: handle_def parts upd same_public_handlers [OF keys] same_public_append [OF keys]
          same_public_issue [OF keys] low_worldI split_def Let_def\<close>)
qed

lemma low_ServeHTTP:
  assumes "low_world w w'" "low_host h h'"
  shows "fst (ServeHTTP chi pr s h rq w) = fst (ServeHTTP chi pr s h' rq w') \<and>
    low_world (snd (ServeHTTP chi pr s h rq w)) (snd (ServeHTTP chi pr s h' rq w'))"
proof -
  have "fst (dispatch chi pr s h rq w) = fst (dispatch chi pr s h' rq w') \<and>
    low_world (snd (dispatch chi pr s h rq w)) (snd (dispatch chi pr s h' rq w'))"
    using low_handle [OF assms] assms(1) by (auto simp: dispatch_def split: sum.split)
  then show ?thesis using assms(1) by (auto simp: ServeHTTP_def cors_def logRequests_def Let_def split_def)
qed

section \<open>What a request can change\<close>

text \<open>How the log grows: leaves at the end, appended events only with them, nothing when refused.\<close>

definition log_grows :: "bool \<Rightarrow> pipeline \<Rightarrow> pipeline \<Rightarrow> bool" where
  "log_grows fresh p p' \<longleftrightarrow>
    (\<exists>new. t_leaves (p_tree p') = t_leaves (p_tree p) @ new \<and> length new \<le> 1 \<and>
      (\<forall>h \<in> set new. length h = 32) \<and> (fresh \<or> new = [])) \<and>
    (fresh \<or> appended p' = appended p)"

lemma log_grows_same: "p_tree p' = p_tree p \<Longrightarrow> appended p' = appended p \<Longrightarrow> log_grows b p p'"
  by (simp add: log_grows_def)

lemma log_grows_refl [simp]: "log_grows b p p"
  by (simp add: log_grows_same)

lemma log_grows_False_mono: "log_grows False p p' \<Longrightarrow> log_grows b p p'"
  by (auto simp: log_grows_def)

lemma log_grows_Submit:
  "log_grows (\<exists>x. fst (Submit vfy (Memory_Get m) now now' io act sig p) = Ok x) p
    (snd (Submit vfy (Memory_Get m) now now' io act sig p))"
proof -
  note spec = Submit_spec [where vfy = vfy and m = m and now = now and now' = now' and io = io and act = act
      and sig = sig and p = p]
  obtain res p' where sub: "Submit vfy (Memory_Get m) now now' io act sig p = (res, p')"
    by (cases "Submit vfy (Memory_Get m) now now' io act sig p")
  show ?thesis
  proof (cases res)
    case (Ok x)
    obtain ev fresh where x: "x = (ev, fresh)" by (cases x)
    show ?thesis
    proof (cases fresh)
      case True
      with spec sub Ok x have "t_leaves (p_tree p') = t_leaves (p_tree p) @ [LeafHash ev]" "length (LeafHash ev) = 32"
        by auto
      then show ?thesis using sub Ok by (simp add: log_grows_def)
    qed (use spec sub Ok x in simp)
  qed (use spec sub in \<open>simp_all add: log_grows_def appended_def\<close>)
qed

lemma audit_append_grows:
  "log_grows (http_status (fst (audit_append vfy (Memory_Get m) now now' io body p)) = Some 200) p
     (snd (audit_append vfy (Memory_Get m) now now' io body p)) \<and>
   http_status (fst (audit_append vfy (Memory_Get m) now now' io body p))
     \<in> {Some 200, Some 400, Some 401, Some 404, Some 422, Some 500}"
proof (cases "\<exists>req sig. body = Some req \<and> req_action req \<noteq> None \<and> hexDecode (req_signature req) = Some sig")
  case False
  then show ?thesis by (auto simp: audit_append_def split: option.split)
next
  case True
  then obtain req sig where req: "body = Some req" "req_action req \<noteq> None" "hexDecode (req_signature req) = Some sig"
    by blast
  obtain res p' where sub: "Submit vfy (Memory_Get m) now now' io (req_action req) sig p = (res, p')"
    by (cases "Submit vfy (Memory_Get m) now now' io (req_action req) sig p")
  have "log_grows (\<exists>x. res = Ok x) p p'" "res \<noteq> Panic"
    using log_grows_Submit [where vfy = vfy and m = m and now = now and now' = now' and io = io
        and act = "req_action req" and sig = sig and p = p]
      Submit_spec [where vfy = vfy and m = m and now = now and now' = now' and io = io
        and act = "req_action req" and sig = sig and p = p] sub
    by auto
  moreover have "http_status (writePipelineError e :: ((string \<times> json) list \<times> bool) http_reply)
      \<in> {Some 400, Some 401, Some 404, Some 422, Some 500}" if "\<forall>x. e \<noteq> SubmitStore x" for e
    using that by (simp add: writePipelineError_def)
  moreover have "\<forall>x. e \<noteq> SubmitStore x" if "res = Err e" for e
    using Submit_memory_error sub that by blast
  ultimately show ?thesis
    using req sub by (cases res) (auto simp: audit_append_def intro: log_grows_False_mono)
qed

lemma record_rejections_frame:
  "p_tree (record_rejections now calls p) = p_tree p \<and> appended (record_rejections now calls p) = appended p"
  unfolding record_rejections_def
  by (induction calls arbitrary: p) (auto simp: RecordRejection_def appended_def)

lemma http_status_map [simp]: "http_status (map_http_reply f r) = http_status r"
  by (cases r) simp_all

abbreviation "request_statuses \<equiv> {200, 201, 204, 400, 401, 403, 404, 409, 422, 500}"

text \<open>The successful replies that may change the state, and the frame of all others.\<close>

definition request_frame :: "nat option \<Rightarrow> world \<Rightarrow> world \<Rightarrow> bool" where
  "request_frame st w w' \<longleftrightarrow>
    log_grows (st = Some 200) (w_pipe w) (w_pipe w') \<and> w_latest w' = w_latest w \<and>
    (st \<in> {Some 200, Some 201, Some 204} \<or> w_keys w' = w_keys w \<and> w_cap w' = w_cap w)"

lemma handle_creates:
  "http_status (fst (handleCreate gen body m)) \<in> Some ` request_statuses \<and>
    (http_status (fst (handleCreate gen body m)) = Some 201 \<or> snd (handleCreate gen body m) = m)"
  "http_status (fst (handleAgents gen body m)) \<in> Some ` request_statuses \<and>
    (http_status (fst (handleAgents gen body m)) = Some 201 \<or> snd (handleAgents gen body m) = m)"
  by (auto simp: key_handler_defs Memory_Create_def split: option.split)

lemma handle_deletes:
  "http_status (fst (handleDelete a m)) \<in> Some ` request_statuses \<and>
    (http_status (fst (handleDelete a m)) = Some 204 \<or> snd (handleDelete a m) = m)"
  by (auto simp: key_handler_defs Memory_Delete_def split: option.split)

lemma handle_reads:
  "http_status (handleGet a m) \<in> Some ` request_statuses"
  "http_status (handleGetAgentPubKey a m) \<in> Some ` request_statuses"
  by (auto simp: key_handler_defs Memory_Get_def split: option.split)

lemma capability_facts:
  "http_status (capability_issue esign (Memory_Get m) clock uuid ibody s) \<in> {Some 201, Some 400, Some 404, Some 500}"
  "http_status (fst (capability_verify vfy unmarshal clock vbody s)) \<in>
    {Some 200, Some 400, Some 401, Some 403, Some 500}"
  "http_status (fst (capability_revoke tokenID s)) \<in> {Some 204, Some 400} \<and>
    (http_status (fst (capability_revoke tokenID s)) = Some 204 \<or> snd (capability_revoke tokenID s) = s)"
proof -
  show "http_status (capability_issue esign (Memory_Get m) clock uuid ibody s)
      \<in> {Some 201, Some 400, Some 404, Some 500}"
    by (auto simp: capability_issue_def Issue_def Memory_Get_def Let_def split: option.split)
  show "http_status (fst (capability_verify vfy unmarshal clock vbody s)) \<in>
      {Some 200, Some 400, Some 401, Some 403, Some 500}"
    using verify_reply_status [of vfy unmarshal clock _ s]
    by (simp add: capability_verify_def split: option.split)
  show "http_status (fst (capability_revoke tokenID s)) \<in> {Some 204, Some 400} \<and>
    (http_status (fst (capability_revoke tokenID s)) = Some 204 \<or> snd (capability_revoke tokenID s) = s)"
    by (simp add: capability_revoke_def)
qed

lemma handle_frame:
  "http_status (fst (handle pr h e arg rq w)) \<in> Some ` request_statuses \<and>
    request_frame (http_status (fst (handle pr h e arg rq w))) w (snd (handle pr h e arg rq w))"
proof -
  note app = audit_append_grows [where vfy = "p_verify pr" and m = "w_keys w" and now = "h_now h"
      and now' = "h_now' h" and io = "h_io h" and body = "rq_append rq" and p = "w_pipe w"]
  note cap = capability_facts(1) [of "p_sign pr" "w_keys w" "wall (h_now h)" "h_uuid h" "rq_issue rq" "w_cap w"]
    capability_facts(2) [of "p_verify pr" "p_unmarshal pr" "wall (h_now h)" "rq_verify rq" "w_cap w"]
    capability_facts(3) [of arg "w_cap w"]
  note keep = record_rejections_frame [THEN conjunct1] record_rejections_frame [THEN conjunct2]
  show ?thesis
  proof (cases e)
    case E_Append
    then show ?thesis using app by (auto simp: handle_def request_frame_def split_def Let_def)
  next
    case E_Events
    then show ?thesis
      by (auto simp: handle_def request_frame_def audit_stream_def Subscribe_def cancel_def appended_def split_def
          Let_def intro!: log_grows_same split: option.split)
  next
    case E_Issue
    then show ?thesis using cap by (auto simp: handle_def request_frame_def)
  next
    case E_Verify
    then show ?thesis
      using cap by (auto simp: handle_def request_frame_def split_def Let_def keep intro!: log_grows_same)
  next
    case E_Revoke
    then show ?thesis using cap by (auto simp: handle_def request_frame_def split_def Let_def)
  next
    case E_Create
    then show ?thesis using handle_creates(1) [of "h_gen h" "rq_create rq" "w_keys w"]
      by (auto simp: handle_def request_frame_def split_def Let_def)
  next
    case E_Agents
    then show ?thesis using handle_creates(2) [of "h_gen h" "rq_create rq" "w_keys w"]
      by (auto simp: handle_def request_frame_def split_def Let_def)
  next
    case E_Delete
    then show ?thesis using handle_deletes [of arg "w_keys w"]
      by (auto simp: handle_def request_frame_def split_def Let_def)
  next
    case E_Get
    then show ?thesis using handle_reads(1) [of arg "w_keys w"] by (auto simp: handle_def request_frame_def)
  next
    case E_AgentPubKey
    then show ?thesis using handle_reads(2) [of arg "w_keys w"] by (auto simp: handle_def request_frame_def)
  next
    case E_Latest
    then show ?thesis
      by (auto simp: handle_def request_frame_def anchor_latest_def Latest_def split: option.split)
  qed (auto simp: handle_def request_frame_def handleHealth_def handleList_def handleMerkleHead_def
      capability_pubkey_def Let_def split_def)
qed

section \<open>Typing of replies\<close>

definition hex32 :: "string \<Rightarrow> bool" where
  "hex32 s \<longleftrightarrow> (\<exists>b. length b = 32 \<and> s = hexEncode b)"

text \<open>Which body an endpoint sends with which status.\<close>

fun payload_typed :: "endpoint \<Rightarrow> nat \<Rightarrow> payload \<Rightarrow> bool" where
  "payload_typed e st (KeyResponse a p) \<longleftrightarrow> a \<noteq> [] \<and> hex32 p \<and>
     (e \<in> {E_Create, E_Agents} \<and> st = 201 \<or> e \<in> {E_Get, E_AgentPubKey} \<and> st = 200)"
| "payload_typed e st (AgentIDs ids) \<longleftrightarrow> e = E_List \<and> st = 200 \<and> sorted ids \<and> distinct ids \<and> [] \<notin> set ids"
| "payload_typed e st (HealthBody v) \<longleftrightarrow> e = E_Health \<and> st = 200 \<and> v = 1"
| "payload_typed e st (HeadBody n r) \<longleftrightarrow> e = E_MerkleHead \<and> st = 200 \<and> (\<exists>x. r = ''0x'' @ x \<and> hex32 x)"
| "payload_typed e st (AppendBody obj i) \<longleftrightarrow> e = E_Append \<and> st = 200"
| "payload_typed e st (StreamBody evs) \<longleftrightarrow> e = E_Events \<and> st = 200"
| "payload_typed e st (IssuedBody t c g) \<longleftrightarrow> e = E_Issue \<and> st = 201"
| "payload_typed e st (ValidBody t) \<longleftrightarrow> e = E_Verify \<and> st = 200"
| "payload_typed e st (PubkeyBody p) \<longleftrightarrow> e = E_SigningPubkey \<and> st = 200 \<and> hex32 p"
| "payload_typed e st (LatestBody l) \<longleftrightarrow> e = E_Latest \<and> st = 200 \<and> lr_TreeSize l \<noteq> 0 \<and>
     (\<exists>x. lr_RootHex l = ''0x'' @ x \<and> hex32 x)"
| "payload_typed e st NoBody \<longleftrightarrow> False"

fun reply_typed :: "endpoint \<Rightarrow> payload http_reply \<Rightarrow> bool" where
  "reply_typed e (Reply st b) \<longleftrightarrow> payload_typed e st b"
| "reply_typed e (ErrorReply st c) \<longleftrightarrow> st \<in> {400, 401, 403, 404, 409, 422, 500} \<and> c \<noteq> []"
| "reply_typed e (NoContent st) \<longleftrightarrow> e \<in> {E_Delete, E_Revoke} \<and> st = 204"
| "reply_typed e Aborted \<longleftrightarrow> False"

definition wf_keys :: "memory \<Rightarrow> bool" where
  "wf_keys m \<longleftrightarrow> memory_ok m \<and>
    (\<forall>a pub priv. Mapping.lookup m a = Some (pub, priv) \<longrightarrow> a \<noteq> [] \<and> length pub = 32)"

definition wf_world :: "world \<Rightarrow> bool" where
  "wf_world w \<longleftrightarrow> wf_keys (w_keys w) \<and>
    length (signPub (w_cap w)) = 32 \<and>
    (\<forall>a. w_latest w = Some a \<longrightarrow> TreeSize a \<noteq> 0 \<and> length (anc_Root a) = 32)"

definition wf_host :: "host \<Rightarrow> bool" where
  "wf_host h \<longleftrightarrow> (\<forall>pub priv. h_gen h = Some (pub, priv) \<longrightarrow> length pub = 32)"

text \<open>Only the two creating handlers add key pairs, and only the generated one.\<close>

lemma key_store_entries:
  "Mapping.lookup (snd (Memory_Create gen m a)) x = Some k \<Longrightarrow>
    Mapping.lookup m x = Some k \<or> x = a \<and> a \<noteq> [] \<and> gen = Some k"
  by (auto simp: Memory_Create_def lookup_update' split: if_splits option.splits prod.splits)

lemma wf_keys_Create:
  assumes "wf_keys m" "wf_host h"
  shows "wf_keys (snd (Memory_Create (h_gen h) m a))"
  unfolding wf_keys_def
proof (intro conjI allI impI)
  show "memory_ok (snd (Memory_Create (h_gen h) m a))"
    using assms(1) mem.create_keys(2) by (simp add: wf_keys_def)
next
  fix x pub priv
  assume "Mapping.lookup (snd (Memory_Create (h_gen h) m a)) x = Some (pub, priv)"
  from key_store_entries [OF this] assms show "x \<noteq> []" "length pub = 32"
    unfolding wf_keys_def wf_host_def by blast+
qed

lemma wf_keys_Delete:
  assumes "wf_keys m"
  shows "wf_keys (snd (Memory_Delete m a))"
  using assms mem.delete_keys [of m a] by (auto simp: wf_keys_def)

lemma wf_keys_handlers:
  assumes "wf_keys m" "wf_host h"
  shows "wf_keys (snd (handleCreate (h_gen h) body m))" "wf_keys (snd (handleAgents (h_gen h) body m))"
    "wf_keys (snd (handleDelete a m))"
  using assms wf_keys_Create [OF assms] wf_keys_Delete [OF assms(1), of a]
  by (auto simp: key_handler_defs split_def split: option.split go_result.split)

lemma Memory_Create_Ok:
  "fst (Memory_Create gen m a) = Ok pub \<Longrightarrow> a \<noteq> [] \<and> (\<exists>priv. gen = Some (pub, priv))"
  by (auto simp: Memory_Create_def split: if_splits option.splits prod.splits)

lemma writeStoreError_typed: "reply_typed e (writeStoreError err)"
  by (cases err) simp_all

lemma key_replies_typed:
  assumes "wf_keys m" "wf_host h"
  shows "reply_typed E_Create (fst (handleCreate (h_gen h) body m))"
    "reply_typed E_Agents (fst (handleAgents (h_gen h) body m))"
    "reply_typed E_Get (handleGet a m)" "reply_typed E_AgentPubKey (handleGetAgentPubKey a m)"
    "reply_typed E_List (handleList m)" "reply_typed E_Delete (fst (handleDelete a m))"
proof -
  have created: "\<exists>b. length b = 32 \<and> hexEncode pub = hexEncode b" "x \<noteq> []"
    if "fst (Memory_Create (h_gen h) m x) = Ok pub" for x pub
    using Memory_Create_Ok [OF that] assms(2) unfolding wf_host_def by blast+
  have panics: "fst (Memory_Create gen m x) \<noteq> Panic" for gen x
    by (simp add: Memory_Create_def split: option.split)
  have stored: "hex32 (hexEncode pub)" "x \<noteq> []" if "Memory_Get m x = Ok (pub, priv)" for x pub priv
    using that assms(1) unfolding wf_keys_def hex32_def Memory_Get_def by (auto split: option.splits)
  have get_no_panic: "Memory_Get m x \<noteq> Panic" for x by (simp add: Memory_Get_def split: option.split)
  show "reply_typed E_Create (fst (handleCreate (h_gen h) body m))"
    "reply_typed E_Agents (fst (handleAgents (h_gen h) body m))"
    using created panics
    by (auto simp: key_handler_defs split_def hex32_def writeStoreError_typed split: option.split go_result.split)
  show "reply_typed E_Get (handleGet a m)" "reply_typed E_AgentPubKey (handleGetAgentPubKey a m)"
    using stored get_no_panic by (auto simp: key_handler_defs writeStoreError_typed split: go_result.split)
  show "reply_typed E_List (handleList m)"
    using assms(1) mem.list_keys [of m] by (auto simp: key_handler_defs wf_keys_def)
  show "reply_typed E_Delete (fst (handleDelete a m))"
    by (auto simp: key_handler_defs Memory_Delete_def split: option.split)
qed

lemma audit_append_typed:
  "reply_typed E_Append (map_http_reply (\<lambda>(fs, i). AppendBody fs i)
    (fst (audit_append vfy (Memory_Get m) now now' io body p)))"
proof -
  have e: "reply_typed E_Append (map_http_reply f (writePipelineError err))" if "\<forall>x. err \<noteq> SubmitStore x" for f err
    using that by (simp add: writePipelineError_def)
  have "\<forall>x. err \<noteq> SubmitStore x" if "fst (Submit vfy (Memory_Get m) now now' io act sig p) = Err err" for err act sig
    using Submit_memory_error that by (metis prod.collapse)
  moreover have "fst (Submit vfy (Memory_Get m) now now' io act sig p) \<noteq> Panic" for act sig
    using Submit_spec [where vfy = vfy and m = m and now = now and now' = now' and io = io and act = act
        and sig = sig and p = p] by (auto split: prod.splits)
  ultimately show ?thesis
    by (auto simp: audit_append_def append_response_def e split_def split: option.split go_result.split)
qed

lemma capability_typed:
  "reply_typed E_Issue (map_http_reply (\<lambda>(tid, claims, sig). IssuedBody tid claims sig)
    (capability_issue esign (Memory_Get m) clock uuid ibody s))"
  "reply_typed E_Verify (map_http_reply ValidBody (fst (capability_verify vfy unmarshal clock vbody s)))"
  "reply_typed E_Revoke (map_http_reply (\<lambda>_. NoBody) (fst (capability_revoke tokenID s)))"
proof -
  show "reply_typed E_Issue (map_http_reply (\<lambda>(tid, claims, sig). IssuedBody tid claims sig)
    (capability_issue esign (Memory_Get m) clock uuid ibody s))"
    by (auto simp: capability_issue_def Issue_def Memory_Get_def Let_def split: option.split)
  have v: "reply_typed E_Verify (map_http_reply ValidBody (verify_error_reply e))" for e
    by (cases e) simp_all
  have "fst (VerifyToken vfy unmarshal clock r s) \<noteq> Panic" for r
    using VerifyToken_calls [of vfy unmarshal clock r s] by simp
  then show "reply_typed E_Verify (map_http_reply ValidBody (fst (capability_verify vfy unmarshal clock vbody s)))"
    using v by (auto simp: capability_verify_def split_def split: option.split go_result.split)
  show "reply_typed E_Revoke (map_http_reply (\<lambda>_. NoBody) (fst (capability_revoke tokenID s)))"
    by (simp add: capability_revoke_def)
qed

lemma handle_typed:
  assumes "wf_world w" "wf_host h"
  shows "reply_typed e (fst (handle pr h e arg rq w)) \<and> wf_world (snd (handle pr h e arg rq w))"
proof -
  have wk: "wf_keys (w_keys w)" using assms(1) by (simp add: wf_world_def)
  note keys = key_replies_typed [OF wk assms(2)] wf_keys_handlers [OF wk assms(2)]
  note wf = assms(1) [unfolded wf_world_def]
  show ?thesis
  proof (cases e)
    case E_Append
    then show ?thesis using wf by (simp add: handle_def audit_append_typed [unfolded split_def] split_def Let_def wf_world_def)
  next
    case E_Events
    then show ?thesis using wf
      by (auto simp: handle_def audit_stream_def Subscribe_def wf_world_def Let_def split: option.split)
  next
    case E_Issue
    then show ?thesis using wf by (simp add: handle_def capability_typed wf_world_def)
  next
    case E_Verify
    then show ?thesis using wf by (simp add: handle_def capability_typed split_def Let_def wf_world_def)
  next
    case E_Revoke
    then show ?thesis using wf
      by (auto simp: handle_def capability_typed split_def Let_def wf_world_def capability_revoke_def RevokeToken_def)
  next
    case E_MerkleHead
    then show ?thesis using wf
      by (auto simp: handle_def handleMerkleHead_def Snapshot_def wf_world_def hex32_def)
  next
    case E_SigningPubkey
    then show ?thesis using wf
      by (auto simp: handle_def capability_pubkey_def SigningPublicKey_def wf_world_def hex32_def)
  next
    case E_Latest
    then show ?thesis using wf
      by (auto simp: handle_def anchor_latest_def Latest_def wf_world_def hex32_def split: option.split)
  next
    case E_Health
    then show ?thesis using wf by (simp add: handle_def handleHealth_def schema_version_const_def wf_world_def)
  qed (use keys wf in \<open>simp_all add: handle_def split_def Let_def wf_world_def\<close>)
qed

lemma VerifyToken_reason:
  "(case VerifyToken vfy unmarshal clock req s of
      (Ok tok, calls) \<Rightarrow> calls = []
    | (Err e, calls) \<Rightarrow> (\<exists>st reason. (verify_error_reply e :: string http_reply) = ErrorReply st reason \<and>
        st \<in> {400, 401, 403} \<and> calls = emitRejection s req reason)
    | (Panic, calls) \<Rightarrow> False)"
  by (auto simp: VerifyToken_def Let_def split: option.split prod.split)

section \<open>Properties\<close>

text \<open>
  C3: private keys never influence what the service says.  Two services that agree on everything
  but the private halves of the agents' key pairs, fed the same requests (and random sources that
  agree on the public halves), give the same replies, headers and log lines for ever, over all
  endpoints; whatever a client can observe or submit is independent of every agent's private key.
\<close>

theorem private_keys_never_leak:
  assumes "low_world w w'" "list_all2 (\<lambda>(h, rq) (h', rq'). low_host h h' \<and> rq = rq') reqs reqs'"
  shows "fst (serve_all chi pr s reqs w) = fst (serve_all chi pr s reqs' w')"
  using assms(2,1)
proof (induction reqs reqs' arbitrary: w w' rule: list_all2_induct)
  case (Cons x xs y ys)
  obtain h rq h' where xy: "x = (h, rq)" "y = (h', rq)" "low_host h h'" using Cons.hyps(1) by auto
  with low_ServeHTTP [OF Cons.prems xy(3)] Cons.IH show ?case by (simp add: split_def Let_def)
qed simp

definition sample_request :: "string \<Rightarrow> string \<Rightarrow> string option \<Rightarrow> http_request" where
  "sample_request m p body = \<lparr>rq_method = m, rq_path = p, rq_origin = ''http://dash'', rq_since = [],
     rq_create = body, rq_append = None, rq_issue = None, rq_verify = None\<rparr>"

definition sample_host :: "byte \<Rightarrow> host" where
  "sample_host k = \<lparr>h_now = \<lparr>wall = 0, mono = 0\<rparr>, h_now' = \<lparr>wall = 0, mono = 0\<rparr>, h_gen = Some (replicate 32 7, replicate 64 k),
     h_uuid = ''id-1'', h_io = (WriteOk, SyncOk)\<rparr>"

definition sample_world :: world where
  "sample_world = \<lparr>w_keys = NewMemory, w_pipe = NewPipeline New [],
     w_cap = \<lparr>signPriv = replicate 64 9, signPub = replicate 32 9, revocation = {}, rejectionSink = True\<rparr>, w_latest = None\<rparr>"

text \<open>A router that knows the three requests of the examples.\<close>

definition sample_router :: route_finder where
  "sample_router rs m p =
    (if (m, ''/v1/keys/'', E_Create) \<in> set rs \<and> m = ''POST'' \<and> p = ''/v1/keys'' then Inr (E_Create, [])
     else if (m, ''/v1/keys/{agentID}'', E_Get) \<in> set rs \<and> m = ''GET'' \<and> p = ''/v1/keys/bot-1''
     then Inr (E_Get, ''bot-1'')
     else Inl 404)"

definition sample_prims :: prims where
  "sample_prims = \<lparr>p_verify = toy_verify, p_sign = toy_sign, p_unmarshal = (\<lambda>_. None)\<rparr>"

definition dashboard_server :: server where
  "dashboard_server = WithCORS [''http://dash''] (WithAuditPipeline True NewServer)"

theorem private_keys_never_leak_witness:
  "map resp_reply (fst (serve_all sample_router sample_prims dashboard_server
      [(sample_host 1, sample_request ''POST'' ''/v1/keys'' (Some ''bot-1'')),
       (sample_host 1, sample_request ''GET'' ''/v1/keys/bot-1'' None)] sample_world)) =
    [Reply 201 (KeyResponse ''bot-1'' (hexEncode (replicate 32 7))),
     Reply 200 (KeyResponse ''bot-1'' (hexEncode (replicate 32 7)))] \<and>
   fst (serve_all sample_router sample_prims dashboard_server
      [(sample_host 1, sample_request ''POST'' ''/v1/keys'' (Some ''bot-1'')),
       (sample_host 1, sample_request ''GET'' ''/v1/keys/bot-1'' None)] sample_world) =
   fst (serve_all sample_router sample_prims dashboard_server
      [(sample_host 2, sample_request ''POST'' ''/v1/keys'' (Some ''bot-1'')),
       (sample_host 2, sample_request ''GET'' ''/v1/keys/bot-1'' None)] sample_world)"
proof
  let ?reqs = "\<lambda>k. [(sample_host k, sample_request ''POST'' ''/v1/keys'' (Some ''bot-1'')),
       (sample_host k, sample_request ''GET'' ''/v1/keys/bot-1'' None)]"
  have "low_host (sample_host 1) (sample_host 2)" by (simp add: low_host_def sample_host_def)
  then have "list_all2 (\<lambda>(h, rq) (h', rq'). low_host h h' \<and> rq = rq') (?reqs 1) (?reqs 2)" by simp
  from private_keys_never_leak [OF low_refl(1) this, of sample_router sample_prims dashboard_server sample_world]
  show "fst (serve_all sample_router sample_prims dashboard_server (?reqs 1) sample_world) =
    fst (serve_all sample_router sample_prims dashboard_server (?reqs 2) sample_world)" .
  show "map resp_reply (fst (serve_all sample_router sample_prims dashboard_server (?reqs 1) sample_world)) =
    [Reply 201 (KeyResponse ''bot-1'' (hexEncode (replicate 32 7))),
     Reply 200 (KeyResponse ''bot-1'' (hexEncode (replicate 32 7)))]"
    by (simp add: ServeHTTP_def cors_def logRequests_def dispatch_def sample_router_def Router_def Route_def
        dashboard_server_def WithCORS_def WithAuditPipeline_def NewServer_def sample_request_def sample_host_def
        sample_world_def handle_def handleCreate_def handleGet_def Memory_Create_def Memory_Get_def NewMemory_def
        lookup_update' Let_def)
qed

text \<open>
  C32: cross-origin access is granted exactly to the allowlist.  Whatever the request and the state,
  the response names an allowed origin iff the request has an origin, the allowlist contains it, and
  then names that origin and no other (never a wildcard).  A preflight of a server with an allowlist is
  answered 204 without any handler or log line; every other request gets the reply and the state
  change that a server without CORS gives it.
\<close>

theorem cors_exact:
  "{v. (''Access-Control-Allow-Origin'', v) \<in> set (resp_headers (fst (ServeHTTP chi pr s h rq w)))} =
      (if rq_origin rq \<noteq> [] \<and> rq_origin rq \<in> set (corsOrigins s) then {rq_origin rq} else {}) \<and>
   (if corsOrigins s \<noteq> [] \<and> rq_method rq = ''OPTIONS''
    then resp_reply (fst (ServeHTTP chi pr s h rq w)) = NoContent 204 \<and>
      resp_log (fst (ServeHTTP chi pr s h rq w)) = None \<and> snd (ServeHTTP chi pr s h rq w) = w
    else (resp_reply (fst (ServeHTTP chi pr s h rq w)), snd (ServeHTTP chi pr s h rq w)) =
      dispatch chi pr s h rq w)"
  by (auto simp: ServeHTTP_def cors_def cors_headers_def logRequests_def Let_def split_def
      split: if_splits)

text \<open>
  C27: a failed request changes nothing but the rejection feed.  A request is either answered by the
  router library itself, or with one of ten statuses, never by an abort.  Unless the status is 200, 201 or
  204 the keys, the capability service, the leaves and the appended events are what they were, and unless it
  is 200 the log has not grown; no request of any kind touches the anchors, removes or changes a leaf, or
  adds more than one.
\<close>

theorem failed_request_changes_nothing:
  "let (resp, w') = ServeHTTP chi pr s h rq w; st = http_status (resp_reply resp) in
    resp_reply resp \<noteq> Aborted \<and> w_latest w' = w_latest w \<and>
    ((\<exists>code. chi (Router s) (rq_method rq) (rq_path rq) = Inl code) \<or> st \<in> Some ` request_statuses) \<and>
    (\<exists>new. t_leaves (p_tree (w_pipe w')) = t_leaves (p_tree (w_pipe w)) @ new \<and> length new \<le> 1 \<and>
      (st = Some 200 \<or> new = [])) \<and>
    (st = Some 200 \<or> [e \<leftarrow> events (w_pipe w'). Kind e = KindAppended] =
      [e \<leftarrow> events (w_pipe w). Kind e = KindAppended]) \<and>
    (st \<in> {Some 200, Some 201, Some 204} \<or> w_keys w' = w_keys w \<and> w_cap w' = w_cap w)"
proof -
  have d: "http_status (fst (dispatch chi pr s h rq w)) \<noteq> None \<and>
      ((\<exists>code. chi (Router s) (rq_method rq) (rq_path rq) = Inl code) \<or>
        http_status (fst (dispatch chi pr s h rq w)) \<in> Some ` request_statuses) \<and>
      request_frame (http_status (fst (dispatch chi pr s h rq w))) w (snd (dispatch chi pr s h rq w))"
    using handle_frame [of pr h _ _ rq w] by (auto simp: dispatch_def request_frame_def split: sum.split)
  have o: "request_frame (Some 204) w w" by (simp add: request_frame_def)
  obtain resp w' where sv: "ServeHTTP chi pr s h rq w = (resp, w')" by (cases "ServeHTTP chi pr s h rq w")
  have "resp_reply resp = NoContent 204 \<and> w' = w \<or>
      resp_reply resp = fst (dispatch chi pr s h rq w) \<and> w' = snd (dispatch chi pr s h rq w)"
    using sv by (auto simp: ServeHTTP_def cors_def logRequests_def Let_def split_def split: if_splits)
  then have "resp_reply resp \<noteq> Aborted \<and>
      ((\<exists>code. chi (Router s) (rq_method rq) (rq_path rq) = Inl code) \<or>
        http_status (resp_reply resp) \<in> Some ` request_statuses) \<and>
      request_frame (http_status (resp_reply resp)) w w'"
    using d o by auto
  then show ?thesis
    unfolding sv Let_def prod.case request_frame_def log_grows_def appended_def by blast
qed

text \<open>
  C26: every reply has the type of its endpoint.  Given a router that only picks registered entries of the
  request's method, and key generation that yields 32-byte public keys, all replies of any run of requests are
  bodies of a registered endpoint with that endpoint's success status (keys and roots as 64 hexadecimal
  digits, agents sorted and non-empty, a latest anchor that is not of the empty tree), or an error code under 400 to
  500, or an empty reply; and the state stays well-formed.
\<close>

theorem replies_well_typed:
  assumes "\<forall>rs m p e arg. chi rs m p = Inr (e, arg) \<longrightarrow> (\<exists>pat. (m, pat, e) \<in> set rs)"
    and "wf_world w" "\<forall>(h, rq) \<in> set reqs. wf_host h"
  shows "list_all2 (\<lambda>(h, rq) resp. (\<exists>pat e. (rq_method rq, pat, e) \<in> set (Router s) \<and> reply_typed e (resp_reply resp)) \<or>
      (\<exists>st. resp_reply resp = NoContent st)) reqs (fst (serve_all chi pr s reqs w)) \<and>
    wf_world (snd (serve_all chi pr s reqs w))"
  using assms(2,3)
proof (induction reqs arbitrary: w)
  case (Cons x xs)
  obtain h rq where x: "x = (h, rq)" by (cases x)
  with Cons.prems have h: "wf_host h" by simp
  have d: "((\<exists>pat e. (rq_method rq, pat, e) \<in> set (Router s) \<and> reply_typed e (fst (dispatch chi pr s h rq w))) \<or>
        (\<exists>st. fst (dispatch chi pr s h rq w) = NoContent st)) \<and> wf_world (snd (dispatch chi pr s h rq w))"
  proof (cases "chi (Router s) (rq_method rq) (rq_path rq)")
    case (Inr ea)
    then have "chi (Router s) (rq_method rq) (rq_path rq) = Inr (fst ea, snd ea)" by simp
    with assms(1) obtain pat where "(rq_method rq, pat, fst ea) \<in> set (Router s)" by blast
    then show ?thesis
      using handle_typed [OF Cons.prems(1) h, of "fst ea" pr "snd ea" rq] Inr
      by (cases ea) (auto simp: dispatch_def)
  qed (use Cons.prems(1) in \<open>simp add: dispatch_def\<close>)
  have "((\<exists>pat e. (rq_method rq, pat, e) \<in> set (Router s) \<and>
          reply_typed e (resp_reply (fst (ServeHTTP chi pr s h rq w)))) \<or>
        (\<exists>st. resp_reply (fst (ServeHTTP chi pr s h rq w)) = NoContent st)) \<and>
      wf_world (snd (ServeHTTP chi pr s h rq w))"
    using d Cons.prems(1) by (simp add: ServeHTTP_def cors_def logRequests_def Let_def split_def)
  then show ?case
    using Cons.IH [of "snd (ServeHTTP chi pr s h rq w)"] Cons.prems(2) x by (simp add: split_def Let_def)
qed simp

theorem replies_well_typed_witness:
  "wf_world (snd (serve_all sample_router sample_prims dashboard_server
      [(sample_host 1, sample_request ''POST'' ''/v1/keys'' (Some ''bot-1'')),
       (sample_host 1, sample_request ''GET'' ''/v1/keys/bot-1'' None)] sample_world))"
proof -
  let ?reqs = "[(sample_host 1, sample_request ''POST'' ''/v1/keys'' (Some ''bot-1'')),
       (sample_host 1, sample_request ''GET'' ''/v1/keys/bot-1'' None)]"
  have "\<forall>rs m p e arg. sample_router rs m p = Inr (e, arg) \<longrightarrow> (\<exists>pat. (m, pat, e) \<in> set rs)"
    by (auto simp: sample_router_def split: if_splits)
  moreover have "wf_world sample_world"
    by (simp add: wf_world_def wf_keys_def memory_ok_def sample_world_def NewMemory_def)
  moreover have "\<forall>(h, rq) \<in> set ?reqs. wf_host h" by (simp add: wf_host_def sample_host_def)
  ultimately show ?thesis
    by (rule replies_well_typed [THEN conjunct2])
qed

text \<open>
  C25: every denied token shows up in the feed, with the reason the caller was given.  A call of the verify
  endpoint that is malformed answers 400 and changes nothing; one that is accepted changes nothing; any
  other answers 400, 401 or 403 and, where a sink is installed as \<open>main\<close> does, adds exactly one event to the audit log, of kind \<open>rejected\<close>, with the
  request's agent, action type and target, the next sequence number, and the error code of the reply as its reason.
\<close>

theorem denied_token_is_reported:
  "case handle pr h E_Verify arg rq w of (r, w') \<Rightarrow>
    (case rq_verify rq of
       None \<Rightarrow> http_status r = Some 400 \<and> w' = w
     | Some req \<Rightarrow>
        if cvr_ClaimsJSON req = [] \<or> cvr_SignatureHex req = [] \<or> cvr_AgentID req = [] \<or>
          hexDecode (cvr_SignatureHex req) = None
        then http_status r = Some 400 \<and> w' = w
        else if http_status r = Some 200 then w' = w
        else \<exists>st reason. r = ErrorReply st reason \<and> st \<in> {400, 401, 403} \<and>
          w' = w\<lparr>w_pipe := w_pipe w'\<rparr> \<and> p_tree (w_pipe w') = p_tree (w_pipe w) \<and>
          events (w_pipe w') = events (w_pipe w) @ (if \<not> rejectionSink (w_cap w) then [] else
            [\<lparr>Seq = of_nat (length (events (w_pipe w))), Kind = KindRejected, LeafIndex = 0, LeafHash = [],
              ev_Action = None, Signature = [], PublicKey = [], ev_AgentID = cvr_AgentID req,
              ev_ActionType = cvr_ActionType req, ev_Target = cvr_Target req, Reason = reason,
              RecordedAt = h_now' h\<rparr>]))"
proof (cases "\<exists>req sig. rq_verify rq = Some req \<and> cvr_ClaimsJSON req \<noteq> [] \<and> cvr_SignatureHex req \<noteq> [] \<and>
    cvr_AgentID req \<noteq> [] \<and> hexDecode (cvr_SignatureHex req) = Some sig")
  case False
  then show ?thesis
    by (auto simp: handle_def capability_verify_def record_rejections_def split: option.split)
next
  case True
  then obtain req sig where req: "rq_verify rq = Some req" "cvr_ClaimsJSON req \<noteq> []" "cvr_SignatureHex req \<noteq> []"
    "cvr_AgentID req \<noteq> []" "hexDecode (cvr_SignatureHex req) = Some sig" by blast
  let ?v = "\<lparr>ver_Claims = cvr_ClaimsJSON req, ver_Signature = sig, ver_AgentID = cvr_AgentID req,
    ver_ActionType = cvr_ActionType req, ver_Target = cvr_Target req\<rparr>"
  obtain res calls where vt: "VerifyToken (p_verify pr) (p_unmarshal pr) (wall (h_now h)) ?v (w_cap w) = (res, calls)"
    by (cases "VerifyToken (p_verify pr) (p_unmarshal pr) (wall (h_now h)) ?v (w_cap w)")
  note reason = VerifyToken_reason [where vfy = "p_verify pr" and unmarshal = "p_unmarshal pr" and clock = "wall (h_now h)"
      and req = ?v and s = "w_cap w"]
  show ?thesis
  proof (cases res)
    case (Ok tok)
    then show ?thesis using req vt reason
      by (simp add: handle_def capability_verify_def record_rejections_def)
  next
    case (Err e)
    with vt reason obtain st code where "(verify_error_reply e :: string http_reply) = ErrorReply st code"
      "st \<in> {400, 401, 403}"
      "calls = (if rejectionSink (w_cap w) then [(cvr_AgentID req, cvr_ActionType req, cvr_Target req, code)] else [])"
      by (auto simp: emitRejection_def)
    then show ?thesis using req vt Err
      by (auto simp: handle_def capability_verify_def record_rejections_def RecordRejection_def at_seq_def
          rejection_def)
  qed (use vt reason in simp)
qed

end
