(* ===== verification/Anchor_Claims.thy ===== *)
theory Anchor_Claims
  imports Anchor
begin

text \<open>
  What the \<open>cast\<close> client puts on its command line and how it reads the receipt, and the life of the
  committer's goroutine.
\<close>

section \<open>The command and the receipt\<close>

lemma parseHexUint_0x:
  assumes "ds \<noteq> []" "\<forall>c \<in> set ds. is_hex c"
  shows "parseHexUint (''0x'' @ ds) = ParseUint ds 16"
proof -
  have "is_hex (CHR ''0'')" by (simp add: is_hex_def from_hex_char_def)
  with assms have "TrimSpace (''0x'' @ ds) = ''0x'' @ ds"
    by (intro TrimSpace_hex_ends) auto
  then show ?thesis using assms(1) by (simp add: parseHexUint_def HasPrefix_def)
qed

lemma is_digit_is_hex: "is_digit c \<Longrightarrow> is_hex c"
  by (auto simp: is_digit_def is_hex_def from_hex_char_def)

lemma parseHexUint_decimal: "parseHexUint (show_u64 w) = Some w"
proof -
  have dig: "is_digit c" if "c \<in> set (show_u64 w)" for c using that by (simp add: show_u64_def show_nat_digits)
  have ne: "show_u64 w \<noteq> []" by (simp add: show_u64_def)
  have "TrimSpace (show_u64 w) = show_u64 w"
    using dig ne by (intro TrimSpace_hex_ends) (auto intro: is_digit_is_hex)
  moreover have "\<not> HasPrefix (show_u64 w) p" if "c \<in> set p" "\<not> is_digit c" for c p
    using that dig by (metis HasPrefix_def in_set_takeD)
  from this [of "CHR ''x''" "''0x''"] this [of "CHR ''X''" "''0X''"]
  have "\<not> HasPrefix (show_u64 w) ''0x''" "\<not> HasPrefix (show_u64 w) ''0X''"
    by (simp_all add: is_digit_def)
  ultimately show ?thesis using ne by (simp add: parseHexUint_def ParseUint_show_u64)
qed

lemma Cast_Commit_Ok:
  "Cast_Commit run decode ts n r c = Ok rc \<longleftrightarrow>
    n \<noteq> 0 \<and> length r = 32 \<and> 0 \<le> sint (unix_seconds ts) \<and>
    (\<exists>out hash block bn. run (cast_env c) (castBin c) (cast_args c n r (unix_seconds ts)) = Ok out \<and>
      decode out = Some (hash, block) \<and> hash \<noteq> [] \<and> parseHexUint block = Some bn \<and>
      rc = \<lparr>rc_ID = 0, rc_TxHash = hash, rc_BlockNumber = bn\<rparr>)"
  by (auto simp: Cast_Commit_def parseCastSendOutput_def validateCommit_def HashSize_def Let_def word_sless_alt
      split: go_result.splits option.splits if_splits)

section \<open>Properties\<close>

text \<open>
  C39: what reaches the chain is what was anchored, and the key stays off the command line.  From the
  arguments of \<open>cast send\<close> the size, the root and the time stamp read back exactly; the arguments do
  not depend on the private key, which appears in one environment entry only, placed behind whatever the
  parent exported.  A receipt is returned exactly when size and root are valid, the clock is not before 1970, the
  process succeeds and its output decodes to a transaction hash and a readable block number,
  hexadecimal after \<open>0x\<close> or decimal (an empty one reads as 0); its anchor id is always 0.
\<close>

theorem cast_commit_faithful:
  "ParseUint (cast_args c n r (unix_seconds ts) ! 6) 10 = Some n \<and>
   take 2 (cast_args c n r (unix_seconds ts) ! 7) = ''0x'' \<and>
   hexDecode (drop 2 (cast_args c n r (unix_seconds ts) ! 7)) = Some r \<and>
   ParseUint (cast_args c n r (unix_seconds ts) ! 8) 10 = Some (unix_seconds ts) \<and>
   cast_args (c\<lparr>privateKey := k\<rparr>) n r (unix_seconds ts) = cast_args c n r (unix_seconds ts) \<and>
   last (defaultCastRunner_env inherited (cast_env c)) = ''ETH_PRIVATE_KEY='' @ privateKey c \<and>
   parseHexUint (show_u64 b) = Some b \<and>
   parseHexUint (''0x'' @ hexEncode (x # xs)) = ParseUint (hexEncode (x # xs)) 16 \<and> parseHexUint [] = Some 0 \<and>
   (Cast_Commit run decode ts n r c = Ok rc \<longleftrightarrow>
     n \<noteq> 0 \<and> length r = 32 \<and> 0 \<le> sint (unix_seconds ts) \<and>
     (\<exists>out hash block bn. run (cast_env c) (castBin c) (cast_args c n r (unix_seconds ts)) = Ok out \<and>
       decode out = Some (hash, block) \<and> hash \<noteq> [] \<and> parseHexUint block = Some bn \<and>
       rc = \<lparr>rc_ID = 0, rc_TxHash = hash, rc_BlockNumber = bn\<rparr>))"
proof -
  have "parseHexUint [] = Some 0" by (simp add: parseHexUint_def TrimSpace_hex)
  moreover have "parseHexUint (''0x'' @ hexEncode (x # xs)) = ParseUint (hexEncode (x # xs)) 16"
    by (rule parseHexUint_0x) (simp, blast intro: from_hex_char_hexEncode)
  ultimately show ?thesis
    by (simp add: Cast_Commit_Ok cast_args_def cast_env_def defaultCastRunner_env_def ParseUint_show_u64
        parseHexUint_decimal del: hexEncode.simps)
qed

end
