(* ===== verification/Keyserver.thy ===== *)
theory Keyserver
  imports Config Http_Claims Anchor_Claims
begin

text \<open>
  The command \<open>cmd/keyserver\<close>: how \<open>main\<close> wires store, tree, pipeline, capability service, HTTP server
  and committer together from the environment, and how it ends.
\<close>

section \<open>The anchor client\<close>

datatype evm_choice = UseFake fake_client | UseCast cast_client

definition buildAnchorClient :: "config \<Rightarrow> (string, evm_choice) go_result" where
  "buildAnchorClient cfg =
    (if AnchorMode cfg = AnchorDryRun then Ok (UseFake NewFakeEVMClient)
     else if AnchorMode cfg = AnchorCast then
       (case NewCastClient \<lparr>contract = AnchorContractAddress cfg, rpcURL = AnchorRPCURL cfg,
           privateKey = Reveal (AnchorPrivateKey cfg), castBin = AnchorCastBinary cfg\<rparr> of
          Ok c \<Rightarrow> Ok (UseCast c)
        | Err e \<Rightarrow> Err e
        | Panic \<Rightarrow> Panic)
     else Err ''buildAnchorClient: unsupported anchor mode'')"

section \<open>Starting\<close>

text \<open>
  The process exits with a status, or serves: with a router, an initial state and, unless anchoring is off, a
  committer with its client and its interval.  \<open>gen\<close> is the capability service's new signing key.
\<close>

datatype startup = Exit nat | Serve server world "(evm_choice \<times> committer \<times> int) option"

definition main_start :: "(string \<Rightarrow> int option) \<Rightarrow> environ \<Rightarrow> key_pair option \<Rightarrow> startup" where
  "main_start ParseDuration env gen =
    (case Load ParseDuration env of
       Ok cfg \<Rightarrow>
        (case NewService True None gen None True of
           Ok capSvc \<Rightarrow>
            (let w = \<lparr>w_keys = NewMemory, w_pipe = NewPipeline New [], w_cap = capSvc, w_latest = NewLatestStore\<rparr>;
                 apiServer = WithCORS (CORSOrigins cfg) (WithMerkleTree True (WithCapability True
                   (WithAuditPipeline True NewServer)))
             in if AnchorMode cfg = AnchorOff then Serve apiServer w None
                else case buildAnchorClient cfg of
                  Ok client \<Rightarrow>
                   (case NewCommitter True True (Some (w_latest w)) (AnchorInterval cfg) of
                      Ok (c, interval) \<Rightarrow> Serve (WithAnchor True apiServer) w (Some (client, c, interval))
                    | _ \<Rightarrow> Exit 1)
                | _ \<Rightarrow> Exit 1)
         | _ \<Rightarrow> Exit 1)
     | _ \<Rightarrow> Exit 1)"

text \<open>The end of \<open>main\<close>: a listener error exits at once; a signal stops the committer, then the server.\<close>

datatype stop_cause = StopSig | ListenError

definition main_end :: "stop_cause \<Rightarrow> lifecycle option \<Rightarrow> bool \<Rightarrow> bool \<Rightarrow> nat \<times> lifecycle option" where
  "main_end cause committer in_time shutdown_ok =
    (case cause of
       ListenError \<Rightarrow> (1, committer)
     | StopSig \<Rightarrow>
        (let committer' = map_option (\<lambda>l. snd (Stop in_time l)) committer
         in (if shutdown_ok then 0 else 1, committer')))"

section \<open>What loading guarantees\<close>

lemmas startup_defs = main_start_def buildAnchorClient_def NewCastClient_def NewCommitter_def NewService_def

lemma Load_wired:
  assumes "Load ParseDuration env = Ok cfg"
  shows "AnchorMode cfg \<in> {''off'', ''dry-run'', ''cast''} \<and> 0 < AnchorInterval cfg \<and>
    [] \<notin> set (CORSOrigins cfg) \<and>
    (AnchorMode cfg = ''cast'' \<longleftrightarrow> Reveal (AnchorPrivateKey cfg) \<noteq> []) \<and>
    (case main_start ParseDuration env (Some (pub, priv)) of
       Exit st \<Rightarrow> False
     | Serve s w anchoring \<Rightarrow>
         corsOrigins s = CORSOrigins cfg \<and> has_pipeline s \<and> has_capability s \<and> has_tree s \<and>
         has_anchor s = (AnchorMode cfg \<noteq> ''off'') \<and>
         anchoring =
          (if AnchorMode cfg = ''off'' then None
           else Some (if AnchorMode cfg = ''dry-run'' then UseFake NewFakeEVMClient
             else UseCast \<lparr>contract = env ''ANCHOR_CONTRACT_ADDRESS'', rpcURL = env ''ANCHOR_RPC_URL'',
               privateKey = env ''ANCHOR_PRIVATE_KEY'', castBin = getEnv env ''ANCHOR_CAST_BINARY'' ''cast''\<rparr>,
             \<lparr>lastCommitted = 0, latest = None\<rparr>, AnchorInterval cfg)))"
proof -
  have origins: "[] \<notin> set (parseOrigins raw)" for raw by (simp add: parseOrigins_def)
  note server = WithCORS_def WithMerkleTree_def WithCapability_def WithAuditPipeline_def NewServer_def
    WithAnchor_def NewLatestStore_def
  from assms show ?thesis
  proof (cases rule: Load_Ok)
    case plain
    then show ?thesis using assms origins
      by (auto simp: startup_defs AnchorOff_def AnchorDryRun_def AnchorCast_def server Let_def)
  next
    case cast
    then show ?thesis using assms origins
      by (simp add: startup_defs AnchorOff_def AnchorDryRun_def AnchorCast_def getEnv_def server Let_def)
  qed
qed

section \<open>Properties\<close>

text \<open>
  C33: a configuration that loads can be wired.  When \<open>Load\<close> succeeds the mode is one of the three,
  the interval is positive, no CORS origin is empty, and there is a private key exactly in \<open>cast\<close> mode; then,
  given a signing key for the capability service, the start cannot fail: the service comes up with audit log,
  tokens and Merkle head mounted, with the anchor endpoint and a committer (starting from nothing, at the
  configured interval) exactly when anchoring is on, and with the private key handed to the \<open>cast\<close> client only.
\<close>

theorem loaded_config_starts:
  assumes "Load ParseDuration env = Ok cfg"
  shows "AnchorMode cfg \<in> {''off'', ''dry-run'', ''cast''} \<and> 0 < AnchorInterval cfg \<and>
    [] \<notin> set (CORSOrigins cfg) \<and>
    (AnchorMode cfg = ''cast'' \<longleftrightarrow> Reveal (AnchorPrivateKey cfg) \<noteq> []) \<and>
    (case main_start ParseDuration env (Some (pub, priv)) of
       Exit st \<Rightarrow> False
     | Serve s w anchoring \<Rightarrow>
         corsOrigins s = CORSOrigins cfg \<and> has_pipeline s \<and> has_capability s \<and> has_tree s \<and>
         has_anchor s = (AnchorMode cfg \<noteq> ''off'') \<and>
         anchoring =
          (if AnchorMode cfg = ''off'' then None
           else Some (if AnchorMode cfg = ''dry-run'' then UseFake NewFakeEVMClient
             else UseCast \<lparr>contract = env ''ANCHOR_CONTRACT_ADDRESS'', rpcURL = env ''ANCHOR_RPC_URL'',
               privateKey = env ''ANCHOR_PRIVATE_KEY'', castBin = getEnv env ''ANCHOR_CAST_BINARY'' ''cast''\<rparr>,
             \<lparr>lastCommitted = 0, latest = None\<rparr>, AnchorInterval cfg)))"
  by (rule Load_wired [OF assms])

definition sample_env :: environ where
  "sample_env k = (if k = ''ANCHOR_MODE'' then ''Cast'' else if k = ''ANCHOR_CONTRACT_ADDRESS'' then ''0xab''
    else if k = ''ANCHOR_RPC_URL'' then ''http://x'' else if k = ''ANCHOR_PRIVATE_KEY'' then ''0x1''
    else if k = ''KEYSERVER_CORS_ORIGINS'' then '' http://a , ,'' else [])"

theorem loaded_config_starts_witness:
  "case main_start (\<lambda>_. None) sample_env (Some (replicate 32 9, replicate 64 9)) of
     Exit st \<Rightarrow> False
   | Serve s w anchoring \<Rightarrow> has_anchor s \<and>
       anchoring = Some (UseCast \<lparr>contract = ''0xab'', rpcURL = ''http://x'', privateKey = ''0x1'', castBin = ''cast''\<rparr>,
         \<lparr>lastCommitted = 0, latest = None\<rparr>, 900000000000)"
proof -
  have low: "ToLower ''Cast'' = ''cast''" by code_simp
  obtain cfg where cfg: "Load (\<lambda>_. None) sample_env = Ok cfg" "AnchorMode cfg = ''cast''"
    "AnchorInterval cfg = 900000000000"
    by (simp add: Load_def initial_config_def load_level_def load_interval_def load_anchor_def sample_env_def
        getEnv_def Let_def low AnchorOff_def AnchorDryRun_def AnchorCast_def
        del: ToLower.simps)
  from loaded_config_starts [OF cfg(1), of "replicate 32 9" "replicate 64 9"] cfg(2,3)
  show ?thesis by (simp add: sample_env_def getEnv_def split: startup.splits)
qed

end
