(* ===== verification/Service.thy ===== *)
theory Service
  imports Keyserver Verifier_Claims
begin

text \<open>
  The running service: HTTP requests interleaved with the committer's goroutine.  The committer takes
  its snapshot of the tree in one step and finishes the commit in a later one, so that requests fall in
  between; each request is one step here (the interleavings inside \<open>Submit\<close> are those of
  \<open>Auditlog_Steps\<close>).  The server's anchor endpoint and the committer share one \<open>LatestStore\<close>.
\<close>

section \<open>Steps\<close>

record 'c node =
  n_world :: world
  n_committer :: committer
  n_client :: 'c
  n_snap :: "(u64 \<times> bytes) option"

abbreviation n_tree :: "'c node \<Rightarrow> tree" where
  "n_tree n \<equiv> p_tree (w_pipe (n_world n))"

definition take_snapshot :: "'c node \<Rightarrow> 'c node" where
  "take_snapshot n = n\<lparr>n_snap := Some (Snapshot (n_tree n))\<rparr>"

definition finish_commit :: "'c evm_commit \<Rightarrow> int \<Rightarrow> u64 \<times> bytes \<Rightarrow> 'c node \<Rightarrow> 'c node" where
  "finish_commit send now snap n =
    (let (res, c, client) = commit send now snap ((n_committer n)\<lparr>latest := w_latest (n_world n)\<rparr>, n_client n)
     in n\<lparr>n_world := (n_world n)\<lparr>w_latest := latest c\<rparr>, n_committer := c, n_client := client, n_snap := None\<rparr>)"

inductive node_step ::
  "'c evm_commit \<Rightarrow> route_finder \<Rightarrow> prims \<Rightarrow> server \<Rightarrow> 'c node \<Rightarrow> 'c node \<Rightarrow> bool" for send chi pr s where
  request: "ServeHTTP chi pr s h rq (n_world n) = (resp, w) \<Longrightarrow> node_step send chi pr s n (n\<lparr>n_world := w\<rparr>)"
| snapshot: "n_snap n = None \<Longrightarrow> node_step send chi pr s n (take_snapshot n)"
| committed: "n_snap n = Some snap \<Longrightarrow> node_step send chi pr s n (finish_commit send now snap n)"

lemma request_step: "node_step send chi pr s n (n\<lparr>n_world := snd (ServeHTTP chi pr s h rq (n_world n))\<rparr>)"
  by (rule request) (rule prod.collapse [symmetric])

text \<open>A round: a snapshot and the commit of it.\<close>

lemma round_steps:
  assumes "n_snap n = None"
  shows "(node_step send chi pr s)\<^sup>*\<^sup>* n (finish_commit send now (Snapshot (n_tree n)) (take_snapshot n))"
proof -
  have "node_step send chi pr s n (take_snapshot n)" by (rule snapshot [OF assms])
  moreover have "node_step send chi pr s (take_snapshot n)
      (finish_commit send now (Snapshot (n_tree n)) (take_snapshot n))"
    by (rule committed) (simp add: take_snapshot_def)
  ultimately show ?thesis by auto
qed

lemma round_tree: "n_tree (finish_commit send now snap (take_snapshot n)) = n_tree n"
  by (simp add: finish_commit_def take_snapshot_def split_def Let_def)

section \<open>The invariant\<close>

text \<open>A pair the tree has been at.\<close>

definition anchored_in :: "tree \<Rightarrow> u64 \<times> bytes \<Rightarrow> bool" where
  "anchored_in t x \<longleftrightarrow> unat (fst x) \<le> length (t_leaves t) \<and> snd x = mth (take (unat (fst x)) (t_leaves t))"

definition node_inv :: "('c \<Rightarrow> (u64 \<times> bytes) list) \<Rightarrow> 'c node \<Rightarrow> bool" where
  "node_inv recorded n \<longleftrightarrow>
    in_step recorded (n_committer n, n_client n) \<and> latest (n_committer n) = w_latest (n_world n) \<and>
    (\<forall>h \<in> set (t_leaves (n_tree n)). length h = 32) \<and>
    (length (t_leaves (n_tree n)) < 2 ^ 63 \<longrightarrow>
      (\<forall>x \<in> set (recorded (n_client n)). fst x \<noteq> 0 \<and> anchored_in (n_tree n) x) \<and>
      (\<forall>x. n_snap n = Some x \<longrightarrow> anchored_in (n_tree n) x))"

lemma anchored_in_grows:
  "anchored_in t x \<Longrightarrow> t_leaves t' = t_leaves t @ new \<Longrightarrow> anchored_in t' x"
  by (auto simp: anchored_in_def)

lemma anchored_in_snapshot:
  "length (t_leaves t) < 2 ^ 63 \<Longrightarrow> anchored_in t (Snapshot t)"
  by (simp add: anchored_in_def Snapshot_def unat_u64_of_nat)

lemma anchored_RootAt:
  assumes "anchored_in t x" "length (t_leaves t) < 2 ^ 63"
  shows "RootAt t (fst x) = Ok (snd x)"
proof -
  have "unat (of_nat (length (t_leaves t)) :: u64) = length (t_leaves t)" using assms(2) by (simp add: unat_u64_of_nat)
  with assms(1) have "fst x \<le> of_nat (length (t_leaves t))" by (simp add: anchored_in_def word_le_nat_alt)
  with assms(1) show ?thesis by (simp add: RootAt_def anchored_in_def not_less)
qed

lemma dispatch_frame:
  "(\<exists>new. t_leaves (p_tree (w_pipe (snd (dispatch chi pr s h rq w)))) = t_leaves (p_tree (w_pipe w)) @ new \<and>
      (\<forall>x \<in> set new. length x = 32)) \<and>
    w_latest (snd (dispatch chi pr s h rq w)) = w_latest w"
  using handle_frame [of pr h _ _ rq w]
  by (fastforce simp: dispatch_def request_frame_def log_grows_def split: sum.split)

lemma ServeHTTP_frame:
  "ServeHTTP chi pr s h rq w = (resp, w') \<Longrightarrow>
    (\<exists>new. t_leaves (p_tree (w_pipe w')) = t_leaves (p_tree (w_pipe w)) @ new \<and> (\<forall>x \<in> set new. length x = 32)) \<and>
    w_latest w' = w_latest w"
  using dispatch_frame [of chi pr s h rq w]
  by (auto simp: ServeHTTP_def cors_def logRequests_def Let_def split_def split: if_splits)

context evm_client begin

lemma node_inv_step:
  assumes "node_step send chi pr s n n'" "node_inv recorded n"
  shows "node_inv recorded n'"
  using assms
proof cases
  case (request h rq resp w)
  from ServeHTTP_frame [OF request(2)] obtain new
    where new: "t_leaves (p_tree (w_pipe w)) = t_leaves (n_tree n) @ new" "\<forall>x \<in> set new. length x = 32"
      "w_latest w = w_latest (n_world n)" by blast
  then have "anchored_in (p_tree (w_pipe w)) x" if "anchored_in (n_tree n) x" for x
    using that anchored_in_grows by blast
  moreover have "length (t_leaves (n_tree n)) < 2 ^ 63" if "length (t_leaves (p_tree (w_pipe w))) < 2 ^ 63"
    using that new(1) by simp
  ultimately show ?thesis
    using assms(2) new by (auto simp: node_inv_def request(1))
next
  case snapshot
  then show ?thesis
    using assms(2) anchored_in_snapshot by (auto simp: node_inv_def take_snapshot_def)
next
  case (committed snap now)
  let ?st = "((n_committer n)\<lparr>latest := w_latest (n_world n)\<rparr>, n_client n)"
  have st: "?st = (n_committer n, n_client n)" using assms(2) by (simp add: node_inv_def)
  obtain res c client where cm: "commit send now snap (n_committer n, n_client n) = (res, c, client)"
    by (cases "commit send now snap (n_committer n, n_client n)") auto
  have n': "n' = n\<lparr>n_world := (n_world n)\<lparr>w_latest := latest c\<rparr>, n_committer := c, n_client := client, n_snap := None\<rparr>"
    by (simp only: committed(1) finish_commit_def st cm) simp
  have step: "in_step recorded (c, client)"
    using commit_in_step [of "(n_committer n, n_client n)" now snap] assms(2) cm by (simp add: node_inv_def)
  have "x \<in> set (recorded (n_client n)) \<or> x = snap \<and> fst x \<noteq> 0" if "x \<in> set (recorded client)" for x
    using that cm by (cases rule: commit_cases [of now snap "n_committer n" "n_client n"]) auto
  with assms(2) committed(2) step show ?thesis by (auto simp: node_inv_def n')
qed

lemma node_inv_steps: "(node_step send chi pr s)\<^sup>*\<^sup>* n n' \<Longrightarrow> node_inv recorded n \<Longrightarrow> node_inv recorded n'"
  by (induction rule: rtranclp_induct) (auto intro: node_inv_step)

end

context live_evm_client begin

lemma healthy_steps: "(node_step send chi pr s)\<^sup>*\<^sup>* n n' \<Longrightarrow> healthy (n_client n) \<Longrightarrow> healthy (n_client n')"
proof (induction rule: rtranclp_induct)
  case (step n' n'')
  then have "healthy (n_client n')" by simp
  with step(2) show ?case
  proof cases
    case (committed snap now)
    then show ?thesis
      using healthy_commit [of "((n_committer n')\<lparr>latest := w_latest (n_world n')\<rparr>, n_client n')" now snap]
        \<open>healthy (n_client n')\<close> by (simp add: finish_commit_def split_def Let_def)
  qed (simp_all add: take_snapshot_def)
qed simp

text \<open>One round of the committer brings the anchor to the head of the tree.\<close>

lemma round_anchors_head:
  assumes "node_inv recorded n" "healthy (n_client n)" "t_leaves (n_tree n) \<noteq> []"
    "length (t_leaves (n_tree n)) < 2 ^ 63"
    and n'_def: "n' = finish_commit send now (Snapshot (n_tree n)) (take_snapshot n)"
  shows "LastCommittedSize (n_committer n') = Size (n_tree n) \<and>
    (\<exists>a. w_latest (n_world n') = Some a \<and> (TreeSize a, anc_Root a) = Snapshot (n_tree n))"
proof -
  let ?snap = "Snapshot (n_tree n)" and ?c = "n_committer n" and ?client = "n_client n"
  have st: "?c\<lparr>latest := w_latest (n_world n)\<rparr> = ?c" using assms(1) by (simp add: node_inv_def)
  have in_st: "in_step recorded (?c, ?client)" using assms(1) by (simp add: node_inv_def)
  have size: "fst ?snap = Size (n_tree n)" "unat (fst ?snap) = length (t_leaves (n_tree n))"
    using assms(4) by (simp_all add: Snapshot_def Size_def unat_u64_of_nat)
  have world: "w_latest (n_world n) = latest ?c" using assms(1) by (simp add: node_inv_def)
  show ?thesis
  proof (cases "lastCommitted ?c < fst ?snap")
    case True
    have "length (snd ?snap) = 32" by (simp add: Snapshot_def)
    from commit_goes_through [OF in_st assms(2) True this, where now = now] obtain a client'
      where "commit send now ?snap (?c, ?client) = (Ok a, \<lparr>lastCommitted = fst ?snap, latest = Some a\<rparr>, client')"
        "(TreeSize a, anc_Root a) = ?snap" by metis
    then show ?thesis by (simp add: n'_def finish_commit_def take_snapshot_def st LastCommittedSize_def size)
  next
    case False
    then have le: "unat (fst ?snap) \<le> unat (lastCommitted ?c)" by (simp add: not_less word_le_nat_alt)
    have ne: "recorded ?client \<noteq> []"
      using in_st le size(2) assms(3) by (auto simp: in_step_def)
    then obtain a where a: "lastCommitted ?c = fst (last (recorded ?client))" "latest ?c = Some a"
      "(TreeSize a, anc_Root a) = last (recorded ?client)" using in_st by (auto simp: in_step_def)
    have "anchored_in (n_tree n) (last (recorded ?client))"
      using assms(1,4) ne by (simp add: node_inv_def)
    then have "last (recorded ?client) = ?snap"
      using a(1) le size assms(4) by (auto simp: anchored_in_def Snapshot_def prod_eq_iff word_unat_eq_iff unat_u64_of_nat)
    moreover have "\<exists>e client'. commit send now ?snap (?c, ?client) = (Err e, ?c, client')"
      by (rule commit_cases [of now ?snap ?c ?client]) (use False in auto)
    ultimately show ?thesis
      using a size by (auto simp: n'_def finish_commit_def take_snapshot_def st LastCommittedSize_def)
  qed
qed

end

section \<open>The dry-run deployment\<close>

text \<open>The states of a service that \<open>main\<close> started with the in-memory client.\<close>

definition dry_run_start :: "startup \<Rightarrow> (server \<times> fake_client node) option" where
  "dry_run_start st =
    (case st of
       Serve s w (Some (UseFake f, c, interval)) \<Rightarrow>
         Some (s, \<lparr>n_world = w, n_committer = c, n_client = f, n_snap = None\<rparr>)
     | _ \<Rightarrow> None)"

definition service_reachable ::
  "route_finder \<Rightarrow> prims \<Rightarrow> server \<Rightarrow> fake_client node \<Rightarrow> bool" where
  "service_reachable chi pr s n \<longleftrightarrow>
    (\<exists>ParseDuration env gen n0. dry_run_start (main_start ParseDuration env gen) = Some (s, n0) \<and>
      (node_step Fake_Commit chi pr s)\<^sup>*\<^sup>* n0 n)"

lemma dry_run_initial:
  assumes "dry_run_start (main_start ParseDuration env gen) = Some (s, n0)"
  shows "n_client n0 = NewFakeEVMClient" "n_committer n0 = \<lparr>lastCommitted = 0, latest = None\<rparr>"
    "n_snap n0 = None" "w_latest (n_world n0) = None" "t_leaves (n_tree n0) = []"
proof -
  have "n_client n0 = NewFakeEVMClient \<and> n_committer n0 = \<lparr>lastCommitted = 0, latest = None\<rparr> \<and>
    n_snap n0 = None \<and> w_latest (n_world n0) = None \<and> t_leaves (n_tree n0) = []"
    using assms
    by (auto simp: dry_run_start_def main_start_def buildAnchorClient_def NewCommitter_def NewLatestStore_def
        NewPipeline_def Let_def split: go_result.splits option.splits if_splits)
  then show "n_client n0 = NewFakeEVMClient" "n_committer n0 = \<lparr>lastCommitted = 0, latest = None\<rparr>"
    "n_snap n0 = None" "w_latest (n_world n0) = None" "t_leaves (n_tree n0) = []" by simp_all
qed

lemma service_inv:
  assumes "service_reachable chi pr s n"
  shows "node_inv fake_recorded n" "f_failNext (n_client n) = None"
proof -
  obtain ParseDuration env gen n0 where n0: "dry_run_start (main_start ParseDuration env gen) = Some (s, n0)"
    and steps: "(node_step Fake_Commit chi pr s)\<^sup>*\<^sup>* n0 n"
    using assms by (auto simp: service_reachable_def)
  note init = dry_run_initial [OF n0]
  have "node_inv fake_recorded n0"
    by (simp add: node_inv_def init in_step_def fake_recorded_def NewFakeEVMClient_def)
  then show "node_inv fake_recorded n" by (rule fake.node_inv_steps [OF steps])
  have "f_failNext (n_client n0) = None" by (simp add: init NewFakeEVMClient_def)
  then show "f_failNext (n_client n) = None" by (rule live_fake.healthy_steps [OF steps])
qed

lemma round_reachable:
  assumes "service_reachable chi pr s n" "n_snap n = None"
  shows "service_reachable chi pr s (finish_commit Fake_Commit now (Snapshot (n_tree n)) (take_snapshot n))"
proof -
  have "(node_step Fake_Commit chi pr s)\<^sup>*\<^sup>* n (finish_commit Fake_Commit now (Snapshot (n_tree n)) (take_snapshot n))"
    by (rule round_steps [OF assms(2)])
  with assms(1) show ?thesis unfolding service_reachable_def by (meson rtranclp_trans)
qed

lemma in_step_served:
  assumes "node_inv fake_recorded n"
  shows "case w_latest (n_world n) of
      None \<Rightarrow> f_anchors (n_client n) = [] \<and> LastCommittedSize (n_committer n) = 0
    | Some a \<Rightarrow> f_anchors (n_client n) \<noteq> [] \<and> LastCommittedSize (n_committer n) = TreeSize a \<and>
        TreeSize a = TreeSize (last (f_anchors (n_client n))) \<and> anc_Root a = anc_Root (last (f_anchors (n_client n)))"
proof (cases "w_latest (n_world n)")
  case None
  with assms show ?thesis
    by (auto simp: node_inv_def in_step_def fake_recorded_def LastCommittedSize_def split: if_splits)
next
  case (Some a)
  with assms show ?thesis
    by (auto simp: node_inv_def in_step_def fake_recorded_def LastCommittedSize_def last_map split: if_splits)
qed

section \<open>A commit some requests after its snapshot\<close>

definition one_request :: "route_finder \<Rightarrow> prims \<Rightarrow> server \<Rightarrow> 'c node \<Rightarrow> 'c node \<Rightarrow> bool" where
  "one_request chi pr s n m \<longleftrightarrow> (\<exists>h rq. m = n\<lparr>n_world := snd (ServeHTTP chi pr s h rq (n_world n))\<rparr>)"

text \<open>The committer is at a head, and the endpoint answers with it.\<close>

definition serves_head :: "u64 \<times> bytes \<Rightarrow> 'c node \<Rightarrow> bool" where
  "serves_head head n \<longleftrightarrow> LastCommittedSize (n_committer n) = fst head \<and>
    (\<exists>body. anchor_latest (w_latest (n_world n)) = Reply 200 body \<and> lr_TreeSize body = fst head \<and>
      lr_RootHex body = ''0x'' @ hexEncode (snd head))"

lemma requests_steps: "(one_request chi pr s)\<^sup>*\<^sup>* n m \<Longrightarrow> (node_step send chi pr s)\<^sup>*\<^sup>* n m"
  by (erule rtranclp_mono [THEN predicate2D, rotated]) (auto simp: one_request_def intro: request_step)

lemma requests_frame:
  assumes "(one_request chi pr s)\<^sup>*\<^sup>* n m"
  shows "n_committer m = n_committer n" "n_client m = n_client n" "w_latest (n_world m) = w_latest (n_world n)"
    "n_snap m = n_snap n" "\<exists>new. t_leaves (n_tree m) = t_leaves (n_tree n) @ new"
proof -
  have "n_committer m = n_committer n \<and> n_client m = n_client n \<and> w_latest (n_world m) = w_latest (n_world n) \<and>
      n_snap m = n_snap n \<and> (\<exists>new. t_leaves (n_tree m) = t_leaves (n_tree n) @ new)"
    using assms
  proof (induction rule: rtranclp_induct)
    case (step k m)
    then obtain h rq where "m = k\<lparr>n_world := snd (ServeHTTP chi pr s h rq (n_world k))\<rparr>"
      by (auto simp: one_request_def)
    with step.IH ServeHTTP_frame [OF prod.collapse [symmetric], of chi pr s h rq "n_world k"] show ?case by auto
  qed simp
  then show "n_committer m = n_committer n" "n_client m = n_client n" "w_latest (n_world m) = w_latest (n_world n)"
    "n_snap m = n_snap n" "\<exists>new. t_leaves (n_tree m) = t_leaves (n_tree n) @ new" by simp_all
qed

lemma late_commit_serves:
  assumes "node_inv fake_recorded n" "f_failNext (n_client n) = None"
    and "t_leaves (n_tree n) \<noteq> []" "length (t_leaves (n_tree n)) < 2 ^ 63"
    and "(one_request chi pr s)\<^sup>*\<^sup>* (take_snapshot n) m"
  shows "serves_head (Snapshot (n_tree n)) (finish_commit Fake_Commit now (Snapshot (n_tree n)) m)"
proof -
  define head where "head = Snapshot (n_tree n)"
  let ?n' = "finish_commit Fake_Commit now head (take_snapshot n)"
  note req = requests_frame [OF assms(5)]
  have same: "n_committer (finish_commit Fake_Commit now head m) = n_committer ?n'"
    "w_latest (n_world (finish_commit Fake_Commit now head m)) = w_latest (n_world ?n')"
    using req(1-3) by (simp_all add: finish_commit_def split_def Let_def)
  have "fst head = Size (n_tree n)" by (simp add: head_def Snapshot_def Size_def)
  with live_fake.round_anchors_head [OF assms(1-4) refl, folded head_def] obtain a where
    "LastCommittedSize (n_committer ?n') = fst head" "w_latest (n_world ?n') = Some a"
    "TreeSize a = fst head" "anc_Root a = snd head" by (metis prod.sel)
  then show ?thesis
    by (simp add: serves_head_def same anchor_latest_def Latest_def flip: head_def)
qed

text \<open>A refused commit changes nothing but the client, which has spent its error.\<close>

lemma refused_commit:
  fixes m :: "fake_client node" and now :: int and e :: anchor_error and snap :: "u64 \<times> bytes"
  assumes "node_inv fake_recorded m" "n_snap m = Some snap"
    and "fst snap \<noteq> 0" "length (snd snap) = 32" "lastCommitted (n_committer m) < fst snap"
  defines "f \<equiv> finish_commit Fake_Commit now snap (m\<lparr>n_client := SetNextError (Some e) (n_client m)\<rparr>)"
  shows "n_committer f = n_committer m" "w_latest (n_world f) = w_latest (n_world m)" "n_tree f = n_tree m"
    "f_failNext (n_client f) = None" "node_inv fake_recorded f"
proof -
  have latest: "latest (n_committer m) = w_latest (n_world m)" using assms(1) by (simp add: node_inv_def)
  have st: "(n_committer m)\<lparr>latest := w_latest (n_world m)\<rparr> = n_committer m" by (simp flip: latest)
  have f: "f = m\<lparr>n_client := (n_client m)\<lparr>f_failNext := None, f_calls := Suc (f_calls (n_client m))\<rparr>, n_snap := None\<rparr>"
    using assms(3-5) latest
    by (cases snap) (simp add: f_def finish_commit_def st commit_def validateCommit_def HashSize_def Fake_Commit_def
        SetNextError_def Let_def not_le [symmetric])
  show "n_committer f = n_committer m" "w_latest (n_world f) = w_latest (n_world m)" "n_tree f = n_tree m"
    "f_failNext (n_client f) = None" by (simp_all add: f)
  show "node_inv fake_recorded f"
    using assms(1) by (auto simp: f node_inv_def in_step_def fake_recorded_def)
qed

section \<open>A sample run\<close>

text \<open>A router that matches patterns literally; a dry-run service with one agent and one action.\<close>

definition exact_router :: route_finder where
  "exact_router rs m p =
    (case List.find (\<lambda>(m', pat, e). m' = m \<and> pat = p) rs of Some (_, _, e) \<Rightarrow> Inr (e, []) | None \<Rightarrow> Inl 404)"

definition dry_env :: environ where
  "dry_env k = (if k = ''ANCHOR_MODE'' then ''dry-run'' else [])"

definition dry_server :: server where
  "dry_server = \<lparr>has_pipeline = True, has_capability = True, has_anchor = True, has_tree = True, corsOrigins = []\<rparr>"

definition dry_node :: "fake_client node" where
  "dry_node = \<lparr>n_world = sample_world, n_committer = \<lparr>lastCommitted = 0, latest = None\<rparr>,
     n_client = NewFakeEVMClient, n_snap = None\<rparr>"

lemma dry_started:
  "dry_run_start (main_start (\<lambda>_. None) dry_env (Some (replicate 32 9, replicate 64 9))) = Some (dry_server, dry_node)"
proof -
  have low: "ToLower ''dry-run'' = ''dry-run''" by code_simp
  have "Load (\<lambda>_. None) dry_env = Ok (initial_config dry_env)"
    by (simp add: Load_def initial_config_def load_level_def load_interval_def load_anchor_def dry_env_def
        getEnv_def low AnchorDryRun_def Let_def del: ToLower.simps)
  moreover have "AnchorMode (initial_config dry_env) = ''dry-run''" "CORSOrigins (initial_config dry_env) = []"
    by (simp_all add: initial_config_def dry_env_def getEnv_def low parseOrigins_def del: ToLower.simps)
  ultimately show ?thesis
    by (simp add: dry_run_start_def main_start_def buildAnchorClient_def NewCommitter_def NewService_def AnchorOff_def
        AnchorDryRun_def dry_server_def dry_node_def sample_world_def NewMemoryStore_def NewLatestStore_def
        WithCORS_def WithMerkleTree_def WithCapability_def WithAuditPipeline_def WithAnchor_def NewServer_def Let_def)
qed

definition create_request :: http_request where
  "create_request = sample_request ''POST'' ''/v1/keys/'' (Some ''bot-1'')"

definition append_request :: http_request where
  "append_request = (sample_request ''POST'' ''/v1/audit/append'' None)\<lparr>rq_append :=
     Some \<lparr>req_action = Some (adm_action (sample_at 1700000000000)), req_signature = hexEncode sample_sig\<rparr>\<rparr>"

definition append_host :: host where
  "append_host = (sample_host 7)\<lparr>h_now := adm_now (sample_at 1700000000000)\<rparr>"

definition after_append :: world where
  "after_append = snd (serve_all exact_router sample_prims dry_server
     [(sample_host 7, create_request), (append_host, append_request)] sample_world)"

definition busy_node :: "fake_client node" where
  "busy_node = dry_node\<lparr>n_world := after_append\<rparr>"

lemma busy_reachable: "service_reachable exact_router sample_prims dry_server busy_node"
proof -
  let ?serve = "ServeHTTP exact_router sample_prims dry_server"
  let ?w = "snd (?serve (sample_host 7) create_request sample_world)"
  have 1: "node_step Fake_Commit exact_router sample_prims dry_server dry_node (dry_node\<lparr>n_world := ?w\<rparr>)"
    using request_step [of _ _ _ _ dry_node "sample_host 7" create_request] by (simp add: dry_node_def)
  have "after_append = snd (?serve append_host append_request ?w)"
    by (simp add: after_append_def split_def Let_def)
  then have "node_step Fake_Commit exact_router sample_prims dry_server (dry_node\<lparr>n_world := ?w\<rparr>) busy_node"
    using request_step [of Fake_Commit exact_router sample_prims dry_server "dry_node\<lparr>n_world := ?w\<rparr>"
        append_host append_request]
    by (simp add: busy_node_def)
  with 1 have "(node_step Fake_Commit exact_router sample_prims dry_server)\<^sup>*\<^sup>* dry_node busy_node" by auto
  then show ?thesis unfolding service_reachable_def using dry_started by blast
qed

lemma busy_leaves: "length (t_leaves (n_tree busy_node)) = 1"
proof -
  let ?r = "sample_at 1700000000000" and ?now = "adm_now (sample_at 1700000000000)" and ?now' = "\<lparr>wall = 0, mono = 0\<rparr>" and ?p = "NewPipeline New []"
  let ?keys = "Mapping.update ''bot-1'' (replicate 32 7, replicate 64 7) NewMemory"
  have "submit_verify toy_verify (Memory_Get ?keys) ?now ?now' (Some (adm_action ?r)) sample_sig = Admit ?r"
    using sample_at_admissible [of 1700000000000 1700000000000]
    by (simp add: submit_verify_Admit) (simp add: sample_read_def Memory_Get_def sample_action_def sample_keys_def)
  moreover obtain ev p1 where 1: "submit_locked (WriteOk, SyncOk) ?r ?p = (Ok (ev, True), p1)"
    "p_tree p1 = New\<lparr>t_leaves := [HashLeaf (leaf_payload ?r)]\<rparr>"
    by (rule submit_locked_memory [of ?p ?r "(WriteOk, SyncOk)"]) (auto simp: NewPipeline_fields)
  ultimately have "Submit toy_verify (Memory_Get ?keys) ?now ?now' (WriteOk, SyncOk) (Some (adm_action ?r)) sample_sig ?p
      = (Ok (ev, True), p1)" by (simp add: Submit_def)
  then have "w_pipe after_append = p1"
    by (simp add: after_append_def ServeHTTP_def logRequests_def dispatch_def exact_router_def Router_def Route_def
        audit_Mount_def dry_server_def create_request_def append_request_def append_host_def sample_request_def
        sample_host_def sample_world_def sample_prims_def handle_def handleCreate_def Memory_Create_def
        audit_append_def append_response_def NewMemory_def Let_def)
  with 1(2) show ?thesis by (simp add: busy_node_def)
qed

section \<open>Properties\<close>

text \<open>
  C4: the whole service never anchors a head it cannot later prove.  In every state that requests and
  committer rounds reach, interleaved in any way, from a dry-run start, the anchors recorded by the client
  have strictly increasing sizes; each of them is non-empty and is a head that the tree has really had:
  \<open>RootAt\<close> of its size is its root and \<open>VerifyHistoricalRoot\<close> accepts it against the tree as it is now; and
  the anchor endpoint serves the last one, at the size the committer remembers.
\<close>

theorem anchored_heads_stay_verifiable:
  assumes "service_reachable chi pr s n" "length (t_leaves (p_tree (w_pipe (n_world n)))) < 2 ^ 63"
  defines "t \<equiv> p_tree (w_pipe (n_world n))"
  shows "sorted_wrt (<) (map TreeSize (f_anchors (n_client n))) \<and>
    (\<forall>a \<in> set (f_anchors (n_client n)). TreeSize a \<noteq> 0 \<and> RootAt t (TreeSize a) = Ok (anc_Root a) \<and>
      (\<exists>rep. VerifyHistoricalRoot t t t (anc_Root a) (TreeSize a) = Some (rep, None) \<and> OK rep)) \<and>
    (case w_latest (n_world n) of
      None \<Rightarrow> f_anchors (n_client n) = [] \<and> LastCommittedSize (n_committer n) = 0
    | Some a \<Rightarrow> f_anchors (n_client n) \<noteq> [] \<and> LastCommittedSize (n_committer n) = TreeSize a \<and>
        TreeSize a = TreeSize (last (f_anchors (n_client n))) \<and> anc_Root a = anc_Root (last (f_anchors (n_client n))))"
proof (intro conjI ballI)
  note inv = service_inv(1) [OF assms(1)]
  show "sorted_wrt (<) (map TreeSize (f_anchors (n_client n)))"
    using inv by (simp add: node_inv_def in_step_def fake_recorded_def comp_def)
  fix a assume "a \<in> set (f_anchors (n_client n))"
  then have a: "TreeSize a \<noteq> 0" "anchored_in t (TreeSize a, anc_Root a)"
    using inv assms(2) by (auto simp: node_inv_def fake_recorded_def t_def)
  show "TreeSize a \<noteq> 0" by (rule a(1))
  show root: "RootAt t (TreeSize a) = Ok (anc_Root a)"
    using anchored_RootAt [OF a(2)] assms(2) by (simp add: t_def)
  have "wf_tree t" using inv assms(2) by (simp add: wf_tree_def wf_leaves_def node_inv_def t_def)
  from verify_quiet_accepts [OF this root]
  show "\<exists>rep. VerifyHistoricalRoot t t t (anc_Root a) (TreeSize a) = Some (rep, None) \<and> OK rep" by simp
qed (rule in_step_served [OF service_inv(1) [OF assms(1)]])

theorem anchored_heads_stay_verifiable_witness:
  "\<exists>n a rep. service_reachable exact_router sample_prims dry_server n \<and>
    length (t_leaves (n_tree n)) = 1 \<and> f_anchors (n_client n) \<noteq> [] \<and> a = last (f_anchors (n_client n)) \<and>
    TreeSize a = 1 \<and> VerifyHistoricalRoot (n_tree n) (n_tree n) (n_tree n) (anc_Root a) (TreeSize a) = Some (rep, None)"
proof -
  define n where "n = finish_commit Fake_Commit 0 (Snapshot (n_tree busy_node)) (take_snapshot busy_node)"
  note inv = service_inv [OF busy_reachable]
  have snap: "n_snap busy_node = None" by (simp add: busy_node_def dry_node_def)
  have reach: "service_reachable exact_router sample_prims dry_server n"
    unfolding n_def by (rule round_reachable [OF busy_reachable snap])
  have ne: "t_leaves (n_tree busy_node) \<noteq> []" using busy_leaves by auto
  have tree: "n_tree n = n_tree busy_node" by (simp add: n_def round_tree)
  have "Size (n_tree busy_node) = 1" using busy_leaves by (simp add: Size_def)
  then obtain a where a: "w_latest (n_world n) = Some a" "TreeSize a = 1"
    using live_fake.round_anchors_head [OF inv ne _ n_def] busy_leaves by (auto simp: Snapshot_def Size_def)
  have "length (t_leaves (p_tree (w_pipe (n_world n)))) < 2 ^ 63" using busy_leaves tree by simp
  note facts = anchored_heads_stay_verifiable [OF reach this]
  from facts a have last: "f_anchors (n_client n) \<noteq> []" "TreeSize (last (f_anchors (n_client n))) = 1" by auto
  then have "last (f_anchors (n_client n)) \<in> set (f_anchors (n_client n))" by simp
  with facts obtain rep where "VerifyHistoricalRoot (n_tree n) (n_tree n) (n_tree n)
      (anc_Root (last (f_anchors (n_client n)))) (TreeSize (last (f_anchors (n_client n)))) = Some (rep, None)"
    by blast
  with last reach busy_leaves tree show ?thesis by auto
qed

text \<open>
  C13: the head gets anchored.  Take any state the service, started in dry-run mode, can reach in which the tree has
  leaves and no commit is under way.  Whatever requests are served between the snapshot the committer takes then and the
  commit of it, and whatever the clock reads, that one commit makes the endpoint answer 200 with the size and root the
  tree had at the snapshot, and the committer remember that size.  And a failure is made good: if the client
  refuses the commit of a new head with any error, the endpoint and the committer are left as they were, and the next round,
  one snapshot and one commit, serves the head of the tree as it is by then.
\<close>

theorem head_gets_anchored:
  fixes n m :: "fake_client node" and now later :: int and e :: anchor_error
  assumes "service_reachable chi pr s n" "n_snap n = None" "t_leaves (p_tree (w_pipe (n_world n))) \<noteq> []"
    and "(one_request chi pr s)\<^sup>*\<^sup>* (take_snapshot n) m" "length (t_leaves (p_tree (w_pipe (n_world m)))) < 2 ^ 63"
  defines "head \<equiv> Snapshot (p_tree (w_pipe (n_world n)))"
    and "failed \<equiv> finish_commit Fake_Commit now (Snapshot (p_tree (w_pipe (n_world n))))
      (m\<lparr>n_client := SetNextError (Some e) (n_client m)\<rparr>)"
  shows "serves_head head (finish_commit Fake_Commit now head m) \<and>
    (LastCommittedSize (n_committer n) < fst head \<longrightarrow>
      w_latest (n_world failed) = w_latest (n_world n) \<and> n_committer failed = n_committer n \<and>
      p_tree (w_pipe (n_world failed)) = p_tree (w_pipe (n_world m)) \<and>
      serves_head (Snapshot (p_tree (w_pipe (n_world m))))
        (finish_commit Fake_Commit later (Snapshot (p_tree (w_pipe (n_world m)))) (take_snapshot failed)))"
proof (intro conjI impI)
  note inv = service_inv [OF assms(1)]
  note req = requests_frame [OF assms(4)]
  have leaves: "\<exists>new. t_leaves (n_tree m) = t_leaves (n_tree n) @ new" using req(5) by (simp add: take_snapshot_def)
  then have less: "length (t_leaves (n_tree n)) < 2 ^ 63" using assms(5) by auto
  show "serves_head head (finish_commit Fake_Commit now head m)"
    unfolding head_def by (rule late_commit_serves [OF inv assms(3) less assms(4)])
  assume new: "LastCommittedSize (n_committer n) < fst head"
  have inv_m: "node_inv fake_recorded m"
    by (rule fake.node_inv_steps [OF requests_steps [OF assms(4)] fake.node_inv_step [OF snapshot [OF assms(2)] inv(1)]])
  have "n_snap m = Some head" "fst head \<noteq> 0" "length (snd head) = 32" "lastCommitted (n_committer m) < fst head"
    using req(1,4) new by (auto simp: head_def Snapshot_def take_snapshot_def LastCommittedSize_def)
  note fail = refused_commit [OF inv_m this, where now = now and e = e, folded failed_def [folded head_def]]
  show "n_committer failed = n_committer n" "w_latest (n_world failed) = w_latest (n_world n)"
    "p_tree (w_pipe (n_world failed)) = p_tree (w_pipe (n_world m))"
    using fail(1-3) req(1,3) by (simp_all add: take_snapshot_def)
  have "t_leaves (n_tree failed) \<noteq> []" "length (t_leaves (n_tree failed)) < 2 ^ 63"
    using leaves assms(3,5) fail(3) by auto
  from late_commit_serves [OF fail(5,4) this rtranclp.rtrancl_refl, where now = later] fail(3)
  show "serves_head (Snapshot (p_tree (w_pipe (n_world m))))
      (finish_commit Fake_Commit later (Snapshot (p_tree (w_pipe (n_world m)))) (take_snapshot failed))" by simp
qed

text \<open>In the witness another request comes between snapshot and commit, and the first commit is refused.\<close>

theorem head_gets_anchored_witness:
  "\<exists>m. (one_request exact_router sample_prims dry_server)\<^sup>*\<^sup>* (take_snapshot busy_node) m \<and>
    Size (n_tree busy_node) = 1 \<and>
    serves_head (Snapshot (n_tree busy_node)) (finish_commit Fake_Commit 5 (Snapshot (n_tree busy_node)) m) \<and>
    (let failed = finish_commit Fake_Commit 5 (Snapshot (n_tree busy_node))
         (m\<lparr>n_client := SetNextError (Some (ErrClient ''rpc'')) (n_client m)\<rparr>)
     in w_latest (n_world failed) = None \<and>
       serves_head (Snapshot (n_tree m)) (finish_commit Fake_Commit 6 (Snapshot (n_tree m)) (take_snapshot failed)))"
proof -
  let ?w = "snd (ServeHTTP exact_router sample_prims dry_server (sample_host 7) create_request after_append)"
  let ?m = "(take_snapshot busy_node)\<lparr>n_world := ?w\<rparr>"
  have run: "(one_request exact_router sample_prims dry_server)\<^sup>*\<^sup>* (take_snapshot busy_node) ?m"
    by (intro r_into_rtranclp) (auto simp: one_request_def take_snapshot_def busy_node_def)
  have "w_pipe ?w = w_pipe after_append"
    by (simp add: ServeHTTP_def logRequests_def dispatch_def exact_router_def Router_def Route_def
        audit_Mount_def dry_server_def create_request_def sample_request_def cors_def sample_host_def
        handle_def Let_def split_def)
  then have len: "length (t_leaves (p_tree (w_pipe (n_world ?m)))) < 2 ^ 63"
    using busy_leaves by (simp add: busy_node_def)
  have idle: "n_snap busy_node = None" "t_leaves (p_tree (w_pipe (n_world busy_node))) \<noteq> []"
    using busy_leaves by (auto simp: busy_node_def dry_node_def)
  have size: "Size (n_tree busy_node) = 1" using busy_leaves by (simp add: Size_def)
  have "LastCommittedSize (n_committer busy_node) < fst (Snapshot (n_tree busy_node))"
    using busy_leaves by (simp add: LastCommittedSize_def Snapshot_def busy_node_def dry_node_def)
  moreover have "w_latest (n_world busy_node) = None"
    using service_inv(1) [OF busy_reachable] by (simp add: node_inv_def busy_node_def dry_node_def)
  moreover note head_gets_anchored [OF busy_reachable idle run len, where now = 5 and later = 6 and e = "ErrClient ''rpc''"]
  ultimately show ?thesis using run size by (intro exI [of _ ?m]) (simp add: Let_def)
qed

end
