(* ===== verification/Contract.thy ===== *)
theory Contract
  imports Anchor
begin

text \<open>
  The contract \<open>AuditAnchor\<close> (\<open>src/contracts/src/AuditAnchor.sol\<close>) that the \<open>cast\<close> client writes to: its
  storage, every external function with its reverts, and what no call can do.  A revert leaves the storage as
  it was, so a function returns the new storage only on success.
\<close>

section \<open>Storage\<close>

type_synonym address = "160 word"

record chain_anchor =
  ca_treeSize :: u64
  ca_root :: bytes
  ca_timestamp :: u64
  ca_blockNumber :: u64

datatype log_entry =
    AuditAnchored nat u64 bytes u64 u64
  | CommitterChanged address address
  | OwnershipTransferStarted address address
  | OwnershipTransferred address address

record audit_anchor =
  aa_owner :: address
  aa_pendingOwner :: address
  aa_committer :: address
  aa_anchors :: "chain_anchor list"
  aa_logs :: "log_entry list"

datatype revert =
    NotOwner | NotPendingOwner | NotCommitter | EmptyTree | TreeShrank u64 u64 | ZeroAddress
  | IndexOutOfBounds

section \<open>Functions\<close>

text \<open>\<open>sender\<close> is \<open>msg.sender\<close>, \<open>block\<close> is \<open>block.number\<close>.\<close>

definition deploy :: "address \<Rightarrow> address \<Rightarrow> (revert, audit_anchor) go_result" where
  "deploy sender initialCommitter =
    (if initialCommitter = 0 then Err ZeroAddress
     else Ok \<lparr>aa_owner = sender, aa_pendingOwner = 0, aa_committer = initialCommitter, aa_anchors = [],
       aa_logs = []\<rparr>)"

definition contract_commit ::
  "address \<Rightarrow> 256 word \<Rightarrow> u64 \<Rightarrow> bytes \<Rightarrow> u64 \<Rightarrow> audit_anchor \<Rightarrow> (revert, nat \<times> audit_anchor) go_result" where
  "contract_commit sender block treeSize root timestamp c =
    (if sender \<noteq> aa_committer c then Err NotCommitter
     else if treeSize = 0 then Err EmptyTree
     else if aa_anchors c \<noteq> [] \<and> treeSize \<le> ca_treeSize (last (aa_anchors c))
     then Err (TreeShrank (ca_treeSize (last (aa_anchors c))) treeSize)
     else let n = length (aa_anchors c)
     in Ok (n, c\<lparr>aa_anchors := aa_anchors c @ [\<lparr>ca_treeSize = treeSize, ca_root = root, ca_timestamp = timestamp,
              ca_blockNumber = ucast block\<rparr>],
            aa_logs := aa_logs c @ [AuditAnchored n treeSize root (ucast block) timestamp]\<rparr>))"

definition anchorAt :: "nat \<Rightarrow> audit_anchor \<Rightarrow> (revert, chain_anchor) go_result" where
  "anchorAt i c = (if i < length (aa_anchors c) then Ok (aa_anchors c ! i) else Err IndexOutOfBounds)"

definition contract_latest :: "audit_anchor \<Rightarrow> (revert, chain_anchor) go_result" where
  "contract_latest c = (if aa_anchors c = [] then Err EmptyTree else Ok (last (aa_anchors c)))"

definition contract_count :: "audit_anchor \<Rightarrow> nat" where
  "contract_count c = length (aa_anchors c)"

definition setCommitter :: "address \<Rightarrow> address \<Rightarrow> audit_anchor \<Rightarrow> (revert, audit_anchor) go_result" where
  "setCommitter sender next_addr c =
    (if sender \<noteq> aa_owner c then Err NotOwner
     else if next_addr = 0 then Err ZeroAddress
     else Ok (c\<lparr>aa_committer := next_addr, aa_logs := aa_logs c @ [CommitterChanged (aa_committer c) next_addr]\<rparr>))"

definition transferOwnership :: "address \<Rightarrow> address \<Rightarrow> audit_anchor \<Rightarrow> (revert, audit_anchor) go_result" where
  "transferOwnership sender next_addr c =
    (if sender \<noteq> aa_owner c then Err NotOwner
     else if next_addr = 0 then Err ZeroAddress
     else Ok (c\<lparr>aa_pendingOwner := next_addr,
       aa_logs := aa_logs c @ [OwnershipTransferStarted (aa_owner c) next_addr]\<rparr>))"

definition acceptOwnership :: "address \<Rightarrow> audit_anchor \<Rightarrow> (revert, audit_anchor) go_result" where
  "acceptOwnership sender c =
    (if sender \<noteq> aa_pendingOwner c then Err NotPendingOwner
     else Ok (c\<lparr>aa_owner := aa_pendingOwner c, aa_pendingOwner := 0,
       aa_logs := aa_logs c @ [OwnershipTransferred (aa_owner c) (aa_pendingOwner c)]\<rparr>))"

section \<open>Transactions\<close>

datatype call =
    CallCommit u64 bytes u64
  | CallSetCommitter address
  | CallTransferOwnership address
  | CallAcceptOwnership

text \<open>One transaction: who sends it, in which block, and what it calls; a reverted one changes nothing.\<close>

definition or_same :: "audit_anchor \<Rightarrow> (revert, audit_anchor) go_result \<Rightarrow> audit_anchor" where
  "or_same c r = (case r of Ok c' \<Rightarrow> c' | _ \<Rightarrow> c)"

fun transact :: "address \<times> 256 word \<times> call \<Rightarrow> audit_anchor \<Rightarrow> audit_anchor" where
  "transact (sender, block, CallCommit n r t) c =
    (case contract_commit sender block n r t c of Ok (i, c') \<Rightarrow> c' | _ \<Rightarrow> c)"
| "transact (sender, block, CallSetCommitter a) c = or_same c (setCommitter sender a c)"
| "transact (sender, block, CallTransferOwnership a) c = or_same c (transferOwnership sender a c)"
| "transact (sender, block, CallAcceptOwnership) c = or_same c (acceptOwnership sender c)"

section \<open>What calls keep\<close>

lemma commit_grows:
  "contract_commit sender block n r t c = Ok (i, c') \<Longrightarrow>
    i = length (aa_anchors c) \<and> aa_anchors c' = aa_anchors c @
      [\<lparr>ca_treeSize = n, ca_root = r, ca_timestamp = t, ca_blockNumber = ucast block\<rparr>] \<and>
    sender = aa_committer c \<and> n \<noteq> 0 \<and> (aa_anchors c \<noteq> [] \<longrightarrow> ca_treeSize (last (aa_anchors c)) < n) \<and>
    aa_committer c' = aa_committer c"
  by (auto simp: contract_commit_def Let_def not_le split: if_splits)

lemma others_keep_anchors [simp]:
  "aa_anchors (or_same c (setCommitter sender a c)) = aa_anchors c"
  "aa_anchors (or_same c (transferOwnership sender a c)) = aa_anchors c"
  "aa_anchors (or_same c (acceptOwnership sender c)) = aa_anchors c"
  by (simp_all add: or_same_def setCommitter_def transferOwnership_def acceptOwnership_def)

text \<open>The invariant of the anchors: sizes grow strictly and none is 0.\<close>

definition chain_inv :: "audit_anchor \<Rightarrow> bool" where
  "chain_inv c \<longleftrightarrow> sorted_wrt (<) (map ca_treeSize (aa_anchors c)) \<and> 0 \<notin> ca_treeSize ` set (aa_anchors c)"

lemma commit_chain_inv:
  assumes "contract_commit sender block n r t c = Ok (i, c')" "chain_inv c"
  shows "chain_inv c'"
proof -
  note g = commit_grows [OF assms(1)]
  have "sorted_wrt (<) (map ca_treeSize (aa_anchors c) @ [n])"
    using assms(2) g by (intro sorted_snoc) (auto simp: chain_inv_def last_map)
  with assms(2) g show ?thesis by (auto simp: chain_inv_def)
qed

lemma transact_step:
  "chain_inv c \<Longrightarrow> chain_inv (transact tx c) \<and> (\<exists>new. aa_anchors (transact tx c) = aa_anchors c @ new)"
proof (induction tx c rule: transact.induct)
  case (1 sender block n r t c)
  then show ?case
    by (cases "contract_commit sender block n r t c") (auto dest: commit_grows intro: commit_chain_inv)
qed (simp_all add: chain_inv_def)

text \<open>A transaction is reverted, adds one anchor for the committer, or is one of the role changes.\<close>

lemma transact_cases:
  obtains (reverted) "transact (sender, block, call) c = c"
  | (anchored) n r t where "call = CallCommit n r t" "sender = aa_committer c"
      "aa_anchors (transact (sender, block, call) c) = aa_anchors c @
        [\<lparr>ca_treeSize = n, ca_root = r, ca_timestamp = t, ca_blockNumber = ucast block\<rparr>]"
      "aa_committer (transact (sender, block, call) c) = aa_committer c"
      "\<exists>l. aa_logs (transact (sender, block, call) c) = aa_logs c @ l"
  | (role) l where "aa_anchors (transact (sender, block, call) c) = aa_anchors c"
      "aa_logs (transact (sender, block, call) c) = aa_logs c @ l"
      "aa_committer (transact (sender, block, call) c) = aa_committer c \<or>
        CommitterChanged (aa_committer c) (aa_committer (transact (sender, block, call) c)) \<in> set l"
proof (cases call)
  case (CallCommit n r t)
  show thesis
  proof (cases "contract_commit sender block n r t c")
    case (Ok x)
    then have "contract_commit sender block n r t c = Ok (fst x, snd x)" by simp
    from commit_grows [OF this] Ok CallCommit show thesis
      by (intro anchored [of n r t]) (auto simp: contract_commit_def Let_def split: if_splits)
  qed (auto intro: reverted simp: CallCommit)
next
  case (CallSetCommitter a)
  then show thesis
    by (cases "setCommitter sender a c") (auto intro: reverted role simp: or_same_def setCommitter_def split: if_splits)
next
  case (CallTransferOwnership a)
  then show thesis
    by (cases "transferOwnership sender a c")
      (auto intro: reverted role simp: or_same_def transferOwnership_def split: if_splits)
next
  case CallAcceptOwnership
  then show thesis
    by (cases "acceptOwnership sender c") (auto intro: reverted role simp: or_same_def acceptOwnership_def split: if_splits)
qed

lemma transact_runs:
  "chain_inv c \<Longrightarrow> chain_inv (fold transact txs c) \<and> (\<exists>new. aa_anchors (fold transact txs c) = aa_anchors c @ new)"
proof (induction txs arbitrary: c)
  case (Cons tx txs)
  from transact_step [OF Cons.prems, of tx] Cons.IH [of "transact tx c"] show ?case by auto
qed simp

end
