(* ===== verification/Chain_Service.thy ===== *)
theory Chain_Service
  imports Service Contract
begin

text \<open>
  The production deployment: the service whose committer runs \<open>cast send\<close> against the contract
  \<open>AuditAnchor\<close>, on a chain that other accounts use, too.  Of the process nothing is assumed but what its command
  line asks for: the transaction may be executed at once, later, again or never, and whatever the process prints or
  returns is arbitrary, so receipts can be lost.  \<open>abi\<close>, the call that the command line denotes, and \<open>self\<close>, the account of
  the service's private key, are arguments.  And the contract against the in-memory client that stands in for it.
\<close>

section \<open>The stand-in and the contract\<close>

text \<open>The same anchors, the same next number, no injected error.\<close>

definition mirrors :: "fake_client \<Rightarrow> audit_anchor \<Rightarrow> bool" where
  "mirrors f c \<longleftrightarrow>
    map (\<lambda>a. (TreeSize a, anc_Root a)) (f_anchors f) = map (\<lambda>a. (ca_treeSize a, ca_root a)) (aa_anchors c) \<and>
    f_nextID f = of_nat (length (aa_anchors c)) \<and> f_failNext f = None"

definition fake_after :: "(int \<times> u64 \<times> bytes) list \<Rightarrow> fake_client" where
  "fake_after cs = fold (\<lambda>(ts, n, r) f. snd (Fake_Commit ts n r f)) cs NewFakeEVMClient"

definition contract_after :: "(int \<times> u64 \<times> bytes) list \<Rightarrow> audit_anchor \<Rightarrow> audit_anchor" where
  "contract_after cs c = fold (\<lambda>(ts, n, r) c. transact (aa_committer c, 0, CallCommit n r (unix_seconds ts)) c) cs c"

lemma mirrors_last:
  assumes "mirrors f c"
  shows "f_anchors f = [] \<longleftrightarrow> aa_anchors c = []"
    "f_anchors f \<noteq> [] \<Longrightarrow> TreeSize (last (f_anchors f)) = ca_treeSize (last (aa_anchors c))"
proof -
  have m: "map (\<lambda>a. (TreeSize a, anc_Root a)) (f_anchors f) = map (\<lambda>a. (ca_treeSize a, ca_root a)) (aa_anchors c)"
    using assms by (simp add: mirrors_def)
  from arg_cong [OF m, of length] show e: "f_anchors f = [] \<longleftrightarrow> aa_anchors c = []"
    by (cases "f_anchors f"; cases "aa_anchors c") simp_all
  from arg_cong [OF m, of last]
  show "f_anchors f \<noteq> [] \<Longrightarrow> TreeSize (last (f_anchors f)) = ca_treeSize (last (aa_anchors c))"
    using e by (simp add: last_map)
qed

lemma mirrors_commit:
  assumes "mirrors f c" "length r = 32"
  shows "case (Fake_Commit ts n r f, contract_commit (aa_committer c) block n r t c) of
      ((Ok rc, f'), Ok (i, c')) \<Rightarrow> rc_ID rc = of_nat i \<and> mirrors f' c'
    | ((Err e, f'), Err v) \<Rightarrow> mirrors f' c \<and> (e = ErrEmptyTree \<and> v = EmptyTree \<or> e = ErrTreeShrank \<and>
        v = TreeShrank (ca_treeSize (last (aa_anchors c))) n)
    | _ \<Rightarrow> False"
proof -
  note last = mirrors_last [OF assms(1)]
  have f: "f_failNext f = None" "f_nextID f = of_nat (length (aa_anchors c))"
    using assms(1) by (simp_all add: mirrors_def)
  show ?thesis
    using assms last f
    by (auto simp: Fake_Commit_def contract_commit_def validateCommit_def HashSize_def Let_def mirrors_def)
qed

lemma mirrors_transact:
  assumes "mirrors f c" "length r = 32"
  shows "mirrors (snd (Fake_Commit ts n r f)) (transact (aa_committer c, block, CallCommit n r t) c)"
proof -
  obtain res f' where f': "Fake_Commit ts n r f = (res, f')" by (cases "Fake_Commit ts n r f")
  from mirrors_commit [OF assms, where ts = ts and n = n and block = block and t = t] show ?thesis
    by (cases res; cases "contract_commit (aa_committer c) block n r t c") (auto simp: f')
qed

lemma mirrors_runs:
  "deploy sender a = Ok c0 \<Longrightarrow> \<forall>(ts, n, r) \<in> set cs. length r = 32 \<Longrightarrow>
    mirrors (fake_after cs) (contract_after cs c0)"
proof (induction cs rule: rev_induct)
  case Nil
  then show ?case
    by (auto simp: fake_after_def contract_after_def mirrors_def NewFakeEVMClient_def deploy_def split: if_splits)
next
  case (snoc x cs)
  obtain ts n r where x: "x = (ts, n, r)" by (cases x)
  have after: "fake_after (cs @ [x]) = snd (Fake_Commit ts n r (fake_after cs))"
    "contract_after (cs @ [x]) c0 =
      transact (aa_committer (contract_after cs c0), 0, CallCommit n r (unix_seconds ts)) (contract_after cs c0)"
    by (simp_all add: fake_after_def contract_after_def x)
  have "mirrors (fake_after cs) (contract_after cs c0)" "length r = 32" using snoc x by auto
  from mirrors_transact [OF this] show ?case unfolding after .
qed

section \<open>Steps\<close>

text \<open>
  \<open>k_asked\<close> are the calls whose transactions the processes were asked to send; \<open>k_authors\<close> records, for each anchor
  added since the service started, the account that sent it.
\<close>

record chain_node =
  k_world :: world
  k_committer :: committer
  k_snap :: "(u64 \<times> bytes) option"
  k_chain :: audit_anchor
  k_asked :: "call list"
  k_authors :: "address list"

abbreviation k_tree :: "chain_node \<Rightarrow> tree" where
  "k_tree k \<equiv> p_tree (w_pipe (k_world k))"

text \<open>
  One attempt of the \<open>cast\<close> client as a client of the committer.  Its state remembers the command line
  of the process when it was started, which \<open>CastClient.Commit\<close> does after its two checks; \<open>out\<close> is whatever the process
  returns.
\<close>

definition starts_process :: "int \<Rightarrow> u64 \<Rightarrow> bytes \<Rightarrow> bool" where
  "starts_process ts n r \<longleftrightarrow> validateCommit n r = None \<and> \<not> unix_seconds ts <s 0"

definition cast_attempt ::
  "(string, string) go_result \<Rightarrow> (string \<Rightarrow> (string \<times> string) option) \<Rightarrow> cast_client \<Rightarrow> string list option evm_commit"
where
  "cast_attempt out decode c ts n r started =
    (Cast_Commit (\<lambda>env bin args. out) decode ts n r c,
     if starts_process ts n r then Some (cast_args c n r (unix_seconds ts)) else started)"

lemma not_started: "\<not> starts_process ts n r \<Longrightarrow> Cast_Commit run decode ts n r c = Cast_Commit run' decode ts n r c"
  by (auto simp: starts_process_def Cast_Commit_def split: option.split)

definition finish_attempt ::
  "(string, string) go_result \<Rightarrow> (string \<Rightarrow> (string \<times> string) option) \<Rightarrow> cast_client \<Rightarrow> int \<Rightarrow> u64 \<times> bytes \<Rightarrow>
    chain_node \<Rightarrow> string list option \<times> chain_node" where
  "finish_attempt out decode c now snap k =
    (let (res, cm, started) = commit (cast_attempt out decode c) now snap
           ((k_committer k)\<lparr>latest := w_latest (k_world k)\<rparr>, None)
     in (started, k\<lparr>k_world := (k_world k)\<lparr>w_latest := latest cm\<rparr>, k_committer := cm, k_snap := None\<rparr>))"

text \<open>The transaction that a command line asks for.\<close>

definition asked_by :: "(string list \<Rightarrow> call) \<Rightarrow> string list option \<Rightarrow> call list" where
  "asked_by abi started = (case started of None \<Rightarrow> [] | Some args \<Rightarrow> [abi args])"

text \<open>A transaction on the chain, with the record of who added an anchor.\<close>

definition mine :: "address \<Rightarrow> 256 word \<Rightarrow> call \<Rightarrow> chain_node \<Rightarrow> chain_node" where
  "mine sender block call k =
    (let chain = transact (sender, block, call) (k_chain k)
     in k\<lparr>k_chain := chain, k_authors := k_authors k @
          replicate (length (aa_anchors chain) - length (aa_anchors (k_chain k))) sender\<rparr>)"

text \<open>
  The service's transactions are those its processes were asked for.  Every other account sends any call, commits
  included; the service's account may also hold the owner's role and send the role changes.
\<close>

inductive chain_step ::
  "(string list \<Rightarrow> call) \<Rightarrow> address \<Rightarrow> cast_client \<Rightarrow> route_finder \<Rightarrow> prims \<Rightarrow> server \<Rightarrow> chain_node \<Rightarrow> chain_node \<Rightarrow> bool"
  for abi self c chi pr s where
  request: "ServeHTTP chi pr s h rq (k_world k) = (resp, w) \<Longrightarrow> chain_step abi self c chi pr s k (k\<lparr>k_world := w\<rparr>)"
| snapshot: "k_snap k = None \<Longrightarrow>
    chain_step abi self c chi pr s k (k\<lparr>k_snap := Some (Snapshot (k_tree k))\<rparr>)"
| attempt: "k_snap k = Some snap \<Longrightarrow> finish_attempt out decode c now snap k = (started, k') \<Longrightarrow>
    chain_step abi self c chi pr s k (k'\<lparr>k_asked := k_asked k @ asked_by abi started\<rparr>)"
| executed: "call \<in> set (k_asked k) \<Longrightarrow> chain_step abi self c chi pr s k (mine self block call k)"
| foreign: "sender \<noteq> self \<Longrightarrow> chain_step abi self c chi pr s k (mine sender block call k)"
| governance: "call \<in> {CallSetCommitter a, CallTransferOwnership a, CallAcceptOwnership} \<Longrightarrow>
    chain_step abi self c chi pr s k (mine self block call k)"

section \<open>The invariant\<close>

text \<open>An account that was the contract's committer at some time since the contract's state was \<open>base\<close>.\<close>

definition held_role :: "audit_anchor \<Rightarrow> audit_anchor \<Rightarrow> address \<Rightarrow> bool" where
  "held_role base chain w \<longleftrightarrow> w = aa_committer base \<or>
    (\<exists>v. CommitterChanged v w \<in> set (drop (length (aa_logs base)) (aa_logs chain)))"

text \<open>The anchors added since, with their authors.\<close>

definition posted :: "audit_anchor \<Rightarrow> chain_node \<Rightarrow> (chain_anchor \<times> address) list" where
  "posted base k = zip (drop (length (aa_anchors base)) (aa_anchors (k_chain k))) (k_authors k)"

definition extends :: "audit_anchor \<Rightarrow> chain_node \<Rightarrow> bool" where
  "extends base k \<longleftrightarrow> chain_inv (k_chain k) \<and>
    (\<exists>new. aa_anchors (k_chain k) = aa_anchors base @ new \<and> length new = length (k_authors k)) \<and>
    (\<exists>l. aa_logs (k_chain k) = aa_logs base @ l) \<and> held_role base (k_chain k) (aa_committer (k_chain k)) \<and>
    (\<forall>w \<in> set (k_authors k). held_role base (k_chain k) w)"

text \<open>All that the service posted, asked for, is about to commit or serves has been a head of the tree.\<close>

definition ours :: "address \<Rightarrow> audit_anchor \<Rightarrow> chain_node \<Rightarrow> (u64 \<times> bytes) set" where
  "ours self base k =
    {(ca_treeSize a, ca_root a) |a. (a, self) \<in> set (posted base k)} \<union> set_option (k_snap k) \<union>
    {(TreeSize a, anc_Root a) |a. w_latest (k_world k) = Some a} \<union>
    {(n, r) |n r t. CallCommit n r t \<in> set (k_asked k)}"

definition heads_inv :: "address \<Rightarrow> audit_anchor \<Rightarrow> chain_node \<Rightarrow> bool" where
  "heads_inv self base k \<longleftrightarrow> (\<forall>x \<in> ours self base k. anchored_in (k_tree k) x)"

definition chain_node_inv :: "address \<Rightarrow> audit_anchor \<Rightarrow> chain_node \<Rightarrow> bool" where
  "chain_node_inv self base k \<longleftrightarrow> extends base k \<and> (\<forall>h \<in> set (t_leaves (k_tree k)). length h = 32) \<and>
    (length (t_leaves (k_tree k)) < 2 ^ 63 \<longrightarrow> heads_inv self base k)"

lemma mine_frame [simp]:
  "k_world (mine sender block call k) = k_world k" "k_snap (mine sender block call k) = k_snap k"
  "k_asked (mine sender block call k) = k_asked k" "k_committer (mine sender block call k) = k_committer k"
  "k_chain (mine sender block call k) = transact (sender, block, call) (k_chain k)"
  by (simp_all add: mine_def Let_def)

lemma held_role_grows:
  "held_role base c w \<Longrightarrow> \<exists>l. aa_logs c = aa_logs base @ l \<Longrightarrow> \<exists>l. aa_logs c' = aa_logs c @ l \<Longrightarrow> held_role base c' w"
  by (auto simp: held_role_def)

text \<open>What a transaction adds: nothing, or one anchor with the size and root of the call, by its sender.\<close>

lemma mine_extends:
  assumes "extends base k"
  shows "extends base (mine sender block call k)"
    and "posted base (mine sender block call k) = posted base k \<or>
      (\<exists>n r t a. call = CallCommit n r t \<and> (ca_treeSize a, ca_root a) = (n, r) \<and>
        posted base (mine sender block call k) = posted base k @ [(a, sender)])"
proof -
  let ?c = "k_chain k" and ?c' = "transact (sender, block, call) (k_chain k)"
  have inv: "chain_inv ?c'" using assms transact_step by (auto simp: extends_def)
  note old = assms [unfolded extends_def]
  have "extends base (mine sender block call k) \<and> (posted base (mine sender block call k) = posted base k \<or>
      (\<exists>n r t a. call = CallCommit n r t \<and> (ca_treeSize a, ca_root a) = (n, r) \<and>
        posted base (mine sender block call k) = posted base k @ [(a, sender)]))"
  proof (cases rule: transact_cases [of sender block call ?c])
    case reverted
    then show ?thesis using old by (simp add: mine_def extends_def posted_def Let_def)
  next
    case (anchored n r t)
    have roles: "held_role base ?c' w" if "held_role base ?c w" for w
      using held_role_grows [OF that _ anchored(5)] old by blast
    have "k_authors (mine sender block call k) = k_authors k @ [sender]"
      using anchored(3) by (simp add: mine_def Let_def)
    moreover have "\<exists>l. aa_logs ?c' = aa_logs base @ l" using old anchored(5) by (metis append.assoc)
    ultimately show ?thesis
      using old anchored inv roles by (auto simp: extends_def posted_def)
  next
    case (role l)
    have roles: "held_role base ?c' w" if "held_role base ?c w" for w
      using held_role_grows [OF that] old role(2) by blast
    moreover have "held_role base ?c' (aa_committer ?c')"
      using role(3) roles old by (auto simp: held_role_def role(2))
    moreover have "\<exists>l. aa_logs ?c' = aa_logs base @ l" using old role(2) by (metis append.assoc)
    moreover have "k_authors (mine sender block call k) = k_authors k" using role(1) by (simp add: mine_def Let_def)
    ultimately show ?thesis using old inv role(1) by (auto simp: extends_def posted_def)
  qed
  then show "extends base (mine sender block call k)"
    and "posted base (mine sender block call k) = posted base k \<or>
      (\<exists>n r t a. call = CallCommit n r t \<and> (ca_treeSize a, ca_root a) = (n, r) \<and>
        posted base (mine sender block call k) = posted base k @ [(a, sender)])" by simp_all
qed

lemma mine_keeps:
  assumes "chain_node_inv self base k" "sender = self \<Longrightarrow> call \<in> set (k_asked k) \<or> (\<forall>n r t. call \<noteq> CallCommit n r t)"
  shows "chain_node_inv self base (mine sender block call k)"
proof -
  have ext: "extends base k" using assms(1) by (simp add: chain_node_inv_def)
  have "ours self base (mine sender block call k) \<subseteq> ours self base k"
    using mine_extends(2) [OF ext, of sender block call] assms(2) by (fastforce simp: ours_def)
  with assms(1) mine_extends(1) [OF ext] show ?thesis by (auto simp: chain_node_inv_def heads_inv_def)
qed

text \<open>What one attempt does to the committer's side and which command line it leaves.\<close>

lemma finish_attempt_cases:
  assumes "finish_attempt out decode c now snap k = (started, k')"
  shows "k_chain k' = k_chain k \<and> k_authors k' = k_authors k \<and> k_tree k' = k_tree k \<and> k_snap k' = None \<and>
    (started = None \<or> started = Some (cast_args c (fst snap) (snd snap) (unix_seconds now)) \<and> length (snd snap) = 32) \<and>
    (w_latest (k_world k') = w_latest (k_world k) \<or>
     (\<exists>a. w_latest (k_world k') = Some a \<and> (TreeSize a, anc_Root a) = snap))"
  using assms
  by (auto simp: finish_attempt_def commit_def cast_attempt_def starts_process_def validateCommit_def HashSize_def
      LatestStore_Set_def Let_def split: prod.splits option.splits go_result.splits if_splits)

definition reads_command :: "(string list \<Rightarrow> call) \<Rightarrow> bool" where
  "reads_command abi \<longleftrightarrow>
    (\<forall>c n r t. length r = 32 \<longrightarrow> abi (cast_args c n r t) = CallCommit n r t)"

lemma attempt_ours:
  assumes "finish_attempt out decode c now snap k = (started, k')" "reads_command abi" "k_snap k = Some snap"
  shows "ours self base (k'\<lparr>k_asked := k_asked k @ asked_by abi started\<rparr>) \<subseteq> ours self base k"
  using finish_attempt_cases [OF assms(1)] assms(2,3)
  by (auto simp: ours_def posted_def asked_by_def reads_command_def)

lemma chain_node_inv_step:
  assumes "chain_step abi self c chi pr s k k'" "reads_command abi" "chain_node_inv self base k"
  shows "chain_node_inv self base k'"
  using assms(1)
proof cases
  case (request h rq resp w)
  from ServeHTTP_frame [OF request(2)] obtain new
    where new: "t_leaves (p_tree (w_pipe w)) = t_leaves (k_tree k) @ new" "\<forall>x \<in> set new. length x = 32"
      "w_latest w = w_latest (k_world k)" by blast
  have "anchored_in (p_tree (w_pipe w)) x" if "anchored_in (k_tree k) x" for x
    using that new(1) by (rule anchored_in_grows)
  moreover have "ours self base k' = ours self base k" using new(3) by (simp add: request(1) ours_def posted_def)
  ultimately show ?thesis
    using assms(3) new by (auto simp: request(1) chain_node_inv_def heads_inv_def extends_def)
next
  case snapshot
  have "ours self base k' \<subseteq> insert (Snapshot (k_tree k)) (ours self base k)"
    by (auto simp: snapshot(1) ours_def posted_def)
  with assms(3) anchored_in_snapshot [of "k_tree k"] show ?thesis
    by (auto simp: snapshot(1) chain_node_inv_def heads_inv_def extends_def)
next
  case (attempt snap out decode now started k0)
  note side = finish_attempt_cases [OF attempt(3)]
  have "ours self base k' \<subseteq> ours self base k"
    unfolding attempt(1) by (rule attempt_ours [OF attempt(3) assms(2) attempt(2)])
  with side assms(3) show ?thesis
    by (auto simp: attempt(1) chain_node_inv_def heads_inv_def extends_def)
next
  case (executed call block)
  show ?thesis unfolding executed(1) by (rule mine_keeps [OF assms(3)]) (simp add: executed(2))
next
  case (foreign sender block call)
  show ?thesis unfolding foreign(1) by (rule mine_keeps [OF assms(3)]) (simp add: foreign(2))
next
  case (governance call a block)
  show ?thesis unfolding governance(1) by (rule mine_keeps [OF assms(3)]) (use governance(2) in auto)
qed

lemma chain_node_inv_steps:
  "(chain_step abi self c chi pr s)\<^sup>*\<^sup>* k k' \<Longrightarrow> reads_command abi \<Longrightarrow> chain_node_inv self base k \<Longrightarrow>
    chain_node_inv self base k'"
  by (induction rule: rtranclp_induct) (auto intro: chain_node_inv_step)

text \<open>A service started in \<open>cast\<close> mode on a contract with any history of transactions since its deployment.\<close>

definition cast_start :: "startup \<Rightarrow> audit_anchor \<Rightarrow> (server \<times> cast_client \<times> chain_node) option" where
  "cast_start st chain =
    (case st of
       Serve s w (Some (UseCast c, cm, interval)) \<Rightarrow>
         Some (s, c, \<lparr>k_world = w, k_committer = cm, k_snap = None, k_chain = chain, k_asked = [], k_authors = []\<rparr>)
     | _ \<Rightarrow> None)"

definition chain_reachable ::
  "(string list \<Rightarrow> call) \<Rightarrow> address \<Rightarrow> route_finder \<Rightarrow> prims \<Rightarrow> audit_anchor \<Rightarrow> chain_node \<Rightarrow> bool" where
  "chain_reachable abi self chi pr base k \<longleftrightarrow>
    (\<exists>ParseDuration env gen deployer account chain txs s c k0. deploy deployer account = Ok chain \<and>
      base = fold transact txs chain \<and> cast_start (main_start ParseDuration env gen) base = Some (s, c, k0) \<and>
      (chain_step abi self c chi pr s)\<^sup>*\<^sup>* k0 k)"

lemma cast_initial:
  assumes "cast_start (main_start ParseDuration env gen) base = Some (s, c, k0)" "chain_inv base"
  shows "chain_node_inv self base k0"
proof -
  have "k_chain k0 = base \<and> k_snap k0 = None \<and> w_latest (k_world k0) = None \<and> t_leaves (k_tree k0) = [] \<and>
      k_asked k0 = [] \<and> k_authors k0 = []"
    using assms(1)
    by (auto simp: cast_start_def main_start_def buildAnchorClient_def NewCommitter_def NewLatestStore_def
        NewPipeline_def Let_def split: go_result.splits option.splits if_splits)
  with assms(2) show ?thesis
    by (simp add: chain_node_inv_def extends_def heads_inv_def ours_def posted_def held_role_def)
qed

lemma chain_reachable_inv:
  assumes "chain_reachable abi self chi pr base k" "reads_command abi"
  shows "chain_node_inv self base k"
proof -
  from assms(1) obtain ParseDuration env gen deployer account chain txs s c k0
    where run: "deploy deployer account = Ok chain" "base = fold transact txs chain"
      "cast_start (main_start ParseDuration env gen) base = Some (s, c, k0)" "(chain_step abi self c chi pr s)\<^sup>*\<^sup>* k0 k"
    unfolding chain_reachable_def by blast
  have "chain_inv chain" using run(1) by (auto simp: deploy_def chain_inv_def split: if_splits)
  then have "chain_inv base" using transact_runs run(2) by simp
  from chain_node_inv_steps [OF run(4) assms(2) cast_initial [OF run(3) this]] show ?thesis .
qed

section \<open>A sample run\<close>

text \<open>
  One agent, one action, and an attempt whose transaction is mined but whose receipt is lost; then the owner, account 1, passes
  the committer's role from the service's account 2 to account 3, which commits a root of its own making.
\<close>

definition cast_env_vars :: environ where
  "cast_env_vars k = (if k = ''ANCHOR_MODE'' then ''cast'' else if k = ''ANCHOR_CONTRACT_ADDRESS'' then ''0xab''
    else if k = ''ANCHOR_RPC_URL'' then ''http://x'' else if k = ''ANCHOR_PRIVATE_KEY'' then ''0x1'' else [])"

definition sample_cast :: cast_client where
  "sample_cast = \<lparr>contract = ''0xab'', rpcURL = ''http://x'', privateKey = ''0x1'', castBin = ''cast''\<rparr>"

definition fresh_chain :: audit_anchor where
  "fresh_chain = \<lparr>aa_owner = 1, aa_pendingOwner = 0, aa_committer = 2, aa_anchors = [], aa_logs = []\<rparr>"

definition cast_node :: chain_node where
  "cast_node = \<lparr>k_world = sample_world, k_committer = \<lparr>lastCommitted = 0, latest = None\<rparr>, k_snap = None,
     k_chain = fresh_chain, k_asked = [], k_authors = []\<rparr>"

definition sample_abi :: "string list \<Rightarrow> call" where
  "sample_abi args =
    (case (ParseUint (args ! 6) 10, hexDecode (drop 2 (args ! 7)), ParseUint (args ! 8) 10) of
       (Some n, Some r, Some t) \<Rightarrow> CallCommit n r t
     | _ \<Rightarrow> CallAcceptOwnership)"

lemma sample_abi_reads: "sample_abi (cast_args c n r t) = CallCommit n r t"
  by (simp add: sample_abi_def cast_args_def ParseUint_show_u64)

lemma cast_started:
  "cast_start (main_start (\<lambda>_. None) cast_env_vars (Some (replicate 32 9, replicate 64 9))) fresh_chain
    = Some (dry_server, sample_cast, cast_node)"
proof -
  have low: "ToLower ''cast'' = ''cast''" by code_simp
  have mode: "AnchorMode (initial_config cast_env_vars) = ''cast''" "CORSOrigins (initial_config cast_env_vars) = []"
    "AnchorInterval (initial_config cast_env_vars) = 900000000000"
    by (simp_all add: initial_config_def cast_env_vars_def getEnv_def low parseOrigins_def del: ToLower.simps)
  have "Load (\<lambda>_. None) cast_env_vars = load_anchor cast_env_vars (initial_config cast_env_vars)"
    by (simp add: Load_def load_level_def load_interval_def cast_env_vars_def)
  with mode show ?thesis
    by (simp add: load_anchor_def cast_start_def main_start_def buildAnchorClient_def NewCastClient_def
        NewCommitter_def NewService_def AnchorOff_def AnchorDryRun_def AnchorCast_def dry_server_def cast_node_def
        sample_cast_def sample_world_def NewMemoryStore_def NewLatestStore_def WithCORS_def WithMerkleTree_def
        WithCapability_def WithAuditPipeline_def WithAnchor_def NewServer_def cast_env_vars_def Let_def)
qed

definition asked_node :: chain_node where
  "asked_node = cast_node\<lparr>k_world := after_append,
     k_asked := [CallCommit 1 (Root (k_tree (cast_node\<lparr>k_world := after_append\<rparr>))) 1700000000]\<rparr>"

definition mined_node :: chain_node where
  "mined_node = mine 3 7 (CallCommit 9 (replicate 32 0) 1700000001) (mine 1 6 (CallSetCommitter 3)
     (mine 2 5 (CallCommit 1 (Root (k_tree (cast_node\<lparr>k_world := after_append\<rparr>))) 1700000000) asked_node))"

lemma asked_reachable:
  "(chain_step sample_abi 2 sample_cast exact_router sample_prims dry_server)\<^sup>*\<^sup>* cast_node asked_node"
proof -
  let ?serve = "ServeHTTP exact_router sample_prims dry_server"
  let ?step = "chain_step sample_abi 2 sample_cast exact_router sample_prims dry_server"
  let ?w = "snd (?serve (sample_host 7) create_request sample_world)"
  let ?busy = "cast_node\<lparr>k_world := after_append\<rparr>"
  let ?snap = "Snapshot (k_tree ?busy)" and ?now = "1700000000 * 1000000000 :: int"
  let ?ready = "?busy\<lparr>k_snap := Some ?snap\<rparr>"
  have req: "?step k (k\<lparr>k_world := snd (?serve h rq (k_world k))\<rparr>)" for k h rq
    by (rule request) (rule prod.collapse [symmetric])
  have 1: "?step cast_node (cast_node\<lparr>k_world := ?w\<rparr>)"
    using req [of cast_node "sample_host 7" create_request] by (simp add: cast_node_def)
  have "after_append = snd (?serve append_host append_request ?w)"
    by (simp add: after_append_def split_def Let_def)
  then have 2: "?step (cast_node\<lparr>k_world := ?w\<rparr>) ?busy"
    using req [of "cast_node\<lparr>k_world := ?w\<rparr>" append_host append_request] by simp
  have 3: "?step ?busy ?ready" by (rule snapshot) (simp add: cast_node_def)
  have snap: "Snapshot (p_tree (w_pipe after_append)) = (1, Root (p_tree (w_pipe after_append)))"
    using busy_leaves by (simp add: Snapshot_def Root_def busy_node_def)
  have root: "length (Root (p_tree (w_pipe after_append))) = 32" by (simp add: Root_def)
  have latest: "w_latest after_append = None"
    using service_inv(1) [OF busy_reachable] by (simp add: node_inv_def busy_node_def dry_node_def)
  have unix: "unix_seconds 1700000000000000000 = 1700000000" by (simp add: unix_seconds_def)
  have "finish_attempt (Err ''exit status 1'') (\<lambda>_. None) sample_cast ?now ?snap ?ready
      = (Some (cast_args sample_cast 1 (Root (k_tree ?busy)) 1700000000), ?busy)"
    using latest root
    by (simp add: finish_attempt_def commit_def snap validateCommit_def HashSize_def cast_attempt_def
        starts_process_def Cast_Commit_def unix word_sless_alt cast_node_def Let_def)
  from attempt [OF _ this, of sample_abi 2 exact_router sample_prims dry_server]
  have 4: "?step ?ready asked_node"
    by (simp add: asked_node_def asked_by_def sample_abi_reads cast_node_def)
  from 1 2 3 4 show ?thesis by (meson converse_rtranclp_into_rtranclp rtranclp.rtrancl_refl)
qed

lemma mined_reachable: "chain_reachable sample_abi 2 exact_router sample_prims fresh_chain mined_node"
proof -
  let ?step = "chain_step sample_abi 2 sample_cast exact_router sample_prims dry_server"
  let ?call = "CallCommit 1 (Root (k_tree (cast_node\<lparr>k_world := after_append\<rparr>))) 1700000000"
  have "?step asked_node (mine 2 5 ?call asked_node)" by (rule executed) (simp add: asked_node_def)
  moreover have "?step (mine 2 5 ?call asked_node) (mine 1 6 (CallSetCommitter 3) (mine 2 5 ?call asked_node))"
    by (rule foreign) simp
  moreover have "?step (mine 1 6 (CallSetCommitter 3) (mine 2 5 ?call asked_node)) mined_node"
    unfolding mined_node_def by (rule foreign) simp
  ultimately have "?step\<^sup>*\<^sup>* cast_node mined_node"
    using asked_reachable by (meson rtranclp.rtrancl_into_rtrancl)
  moreover have "deploy 1 2 = Ok fresh_chain" by (simp add: deploy_def fresh_chain_def)
  moreover have "fresh_chain = fold transact [] fresh_chain" by simp
  ultimately show ?thesis unfolding chain_reachable_def using cast_started by blast
qed

lemma mined_posts:
  "\<exists>a b. posted fresh_chain mined_node = [(a, 2), (b, 3)] \<and> ca_treeSize a = 1 \<and> ca_treeSize b = 9"
  "k_tree mined_node = p_tree (w_pipe after_append)"
  by (simp_all add: mined_node_def asked_node_def cast_node_def mine_def posted_def fresh_chain_def contract_commit_def
      setCommitter_def or_same_def word_le_nat_alt Let_def)

section \<open>Properties\<close>

text \<open>
  C5: in production, too, what the service puts on the chain can be proved.  The service starts in \<open>cast\<close> mode on a
  contract with any history.  Its \<open>cast\<close> processes do what they like with the transactions they are asked to send
  (execute each at once, later, again or never; print a receipt, garbage or nothing; fail after the transaction
  was mined), every other account sends any transactions, its own commits and role changes included, and requests and
  attempts interleave with all this.  Then the contract's earlier anchors stay, all sizes grow strictly, and each anchor added since is either
  the service's own, and a non-empty head that the tree has had and that \<open>VerifyHistoricalRoot\<close> accepts against the live tree, or
  was sent by an account that held the committer's role (at the start, or by a \<open>CommitterChanged\<close> event since).  The
  anchor served by the endpoint is always a head of the tree.  Assumed: the command line denotes the
  call it spells out, and the service's account sends no commits but those of its processes (its key is not used elsewhere).
\<close>

theorem chain_heads_stay_verifiable:
  assumes "\<forall>c n r t. length r = 32 \<longrightarrow> abi (cast_args c n r t) = CallCommit n r t"
    and "chain_reachable abi self chi pr base k" "length (t_leaves (p_tree (w_pipe (k_world k)))) < 2 ^ 63"
  defines "t \<equiv> p_tree (w_pipe (k_world k))"
  shows "aa_anchors (k_chain k) = aa_anchors base @ map fst (posted base k) \<and>
    sorted_wrt (<) (map ca_treeSize (aa_anchors (k_chain k))) \<and>
    (\<forall>(a, author) \<in> set (posted base k). if author = self
      then ca_treeSize a \<noteq> 0 \<and> RootAt t (ca_treeSize a) = Ok (ca_root a) \<and>
        (\<exists>rep. VerifyHistoricalRoot t t t (ca_root a) (ca_treeSize a) = Some (rep, None) \<and> OK rep)
      else author = aa_committer base \<or>
        (\<exists>v. CommitterChanged v author \<in> set (drop (length (aa_logs base)) (aa_logs (k_chain k))))) \<and>
    (case w_latest (k_world k) of None \<Rightarrow> True | Some a \<Rightarrow> RootAt t (TreeSize a) = Ok (anc_Root a))"
proof -
  have "reads_command abi" using assms(1) by (simp add: reads_command_def)
  from chain_reachable_inv [OF assms(2) this] have inv: "extends base k" "heads_inv self base k" "wf_tree t"
    using assms(3) by (simp_all add: chain_node_inv_def wf_tree_def wf_leaves_def t_def)
  have root: "RootAt t (fst x) = Ok (snd x)" if "x \<in> ours self base k" for x
    using inv(2) that anchored_RootAt assms(3) by (auto simp: heads_inv_def t_def)
  obtain new where new: "aa_anchors (k_chain k) = aa_anchors base @ new" "length new = length (k_authors k)"
    "posted base k = zip new (k_authors k)"
    using inv(1) by (auto simp: extends_def posted_def)
  have sizes: "chain_inv (k_chain k)" using inv(1) by (simp add: extends_def)
  have "if author = self
      then ca_treeSize a \<noteq> 0 \<and> RootAt t (ca_treeSize a) = Ok (ca_root a) \<and>
        (\<exists>rep. VerifyHistoricalRoot t t t (ca_root a) (ca_treeSize a) = Some (rep, None) \<and> OK rep)
      else held_role base (k_chain k) author" if p: "(a, author) \<in> set (posted base k)" for a author
  proof -
    have "author \<in> set (k_authors k)" "a \<in> set (aa_anchors (k_chain k))"
      using p new by (auto dest: set_zip_leftD set_zip_rightD)
    moreover have "RootAt t (ca_treeSize a) = Ok (ca_root a)" if "author = self"
      using root [of "(ca_treeSize a, ca_root a)"] p that by (auto simp: ours_def)
    ultimately show ?thesis
      using inv(1) sizes verify_quiet_accepts [OF inv(3)] by (auto simp: extends_def chain_inv_def)
  qed
  then have "\<forall>(a, author) \<in> set (posted base k). if author = self
      then ca_treeSize a \<noteq> 0 \<and> RootAt t (ca_treeSize a) = Ok (ca_root a) \<and>
        (\<exists>rep. VerifyHistoricalRoot t t t (ca_root a) (ca_treeSize a) = Some (rep, None) \<and> OK rep)
      else author = aa_committer base \<or>
        (\<exists>v. CommitterChanged v author \<in> set (drop (length (aa_logs base)) (aa_logs (k_chain k))))"
    by (fold held_role_def) blast
  moreover have "case w_latest (k_world k) of None \<Rightarrow> True | Some a \<Rightarrow> RootAt t (TreeSize a) = Ok (anc_Root a)"
    using root by (force simp: ours_def split: option.split)
  ultimately show ?thesis using new sizes by (simp add: chain_inv_def)
qed

theorem chain_heads_stay_verifiable_witness:
  "\<exists>a b rep. posted fresh_chain mined_node = [(a, 2), (b, 3)] \<and> ca_treeSize a = 1 \<and> ca_treeSize b = 9 \<and>
    VerifyHistoricalRoot (k_tree mined_node) (k_tree mined_node) (k_tree mined_node) (ca_root a) 1 = Some (rep, None) \<and> OK rep \<and>
    (\<exists>v. CommitterChanged v 3 \<in> set (aa_logs (k_chain mined_node)))"
proof -
  obtain a b where posts: "posted fresh_chain mined_node = [(a, 2), (b, 3)]" "ca_treeSize a = 1" "ca_treeSize b = 9"
    using mined_posts(1) by blast
  have "\<forall>c n r t. length r = 32 \<longrightarrow> sample_abi (cast_args c n r t) = CallCommit n r t"
    by (simp add: sample_abi_reads)
  moreover have "length (t_leaves (p_tree (w_pipe (k_world mined_node)))) < 2 ^ 63"
    using busy_leaves mined_posts(2) by (simp add: busy_node_def)
  note facts = chain_heads_stay_verifiable [OF calculation mined_reachable this]
  have "aa_committer fresh_chain = 2" "aa_logs fresh_chain = []" by (simp_all add: fresh_chain_def)
  with facts posts show ?thesis by auto
qed

text \<open>
  C23: the stand-in refines the contract.  After any history of commits with 32-byte roots on a fresh in-memory
  client and on a freshly deployed contract, the next commit is accepted by both, with the same number, or
  refused by both, for the same reason; and they hold the same sizes and roots.
\<close>

theorem fake_refines_contract:
  assumes "deploy sender account = Ok c0" "\<forall>(ts, n, r) \<in> set cs. length r = 32" "length root = 32"
  shows "map (\<lambda>a. (TreeSize a, anc_Root a)) (f_anchors (fake_after cs)) =
      map (\<lambda>a. (ca_treeSize a, ca_root a)) (aa_anchors (contract_after cs c0)) \<and>
    (case (Fake_Commit now n root (fake_after cs),
        contract_commit (aa_committer (contract_after cs c0)) block n root (unix_seconds now) (contract_after cs c0)) of
      ((Ok rc, f'), Ok (i, c')) \<Rightarrow> rc_ID rc = of_nat i \<and>
        map (\<lambda>a. (TreeSize a, anc_Root a)) (f_anchors f') = map (\<lambda>a. (ca_treeSize a, ca_root a)) (aa_anchors c')
    | ((Err e, f'), Err v) \<Rightarrow> e = ErrEmptyTree \<and> v = EmptyTree \<or>
        e = ErrTreeShrank \<and> v = TreeShrank (ca_treeSize (last (aa_anchors (contract_after cs c0)))) n
    | _ \<Rightarrow> False)"
proof -
  note sim = mirrors_runs [OF assms(1,2)]
  from mirrors_commit [OF sim assms(3), where ts = now and n = n and block = block and t = "unix_seconds now"] sim
  show ?thesis by (auto simp: mirrors_def split: go_result.splits prod.splits)
qed

theorem fake_refines_contract_witness:
  "\<exists>f' l. Fake_Commit 0 1 (replicate 32 7) (fake_after [(0, 1, replicate 32 0)]) = (Err ErrTreeShrank, f') \<and>
    contract_commit (aa_committer (contract_after [(0, 1, replicate 32 0)] fresh_chain)) 9 1 (replicate 32 7) (unix_seconds 0)
      (contract_after [(0, 1, replicate 32 0)] fresh_chain) = Err (TreeShrank l 1)"
proof -
  have "deploy 1 2 = Ok fresh_chain" by (simp add: deploy_def fresh_chain_def)
  moreover have "\<forall>(ts, n, r) \<in> set [(0, 1, replicate 32 0)]. length (r :: bytes) = 32" by simp
  ultimately have "\<exists>f'. Fake_Commit 0 1 (replicate 32 7) (fake_after [(0, 1, replicate 32 0)]) = (Err ErrTreeShrank, f')"
    "\<exists>v. contract_commit (aa_committer (contract_after [(0, 1, replicate 32 0)] fresh_chain)) 9 1 (replicate 32 7)
      (unix_seconds 0) (contract_after [(0, 1, replicate 32 0)] fresh_chain) = Err v"
    by (simp_all add: fake_after_def Fake_Commit_def NewFakeEVMClient_def validateCommit_def HashSize_def
        contract_after_def contract_commit_def fresh_chain_def Let_def)
  with fake_refines_contract [OF \<open>deploy 1 2 = Ok fresh_chain\<close>
      \<open>\<forall>(ts, n, r) \<in> set [(0, 1, replicate 32 0)]. length (r :: bytes) = 32\<close>,
      where root = "replicate 32 7" and now = 0 and n = 1 and block = 9]
  show ?thesis by auto
qed

end
