(* ===== verification/Vector_Gen.thy ===== *)
theory Vector_Gen
  imports Action
begin

text \<open>
  The command \<open>internal/signing/vector_gen\<close>, which writes \<open>docs/signing_vectors.json\<close>, and that file as a test of
  the model of \<open>Canonical\<close>.  \<open>NewKeyFromSeed\<close> and the signature primitive are arguments.
\<close>

record vectors =
  v_seed :: string
  v_public_key :: string
  v_action :: action
  v_canonical_hex :: string
  v_signature_hex :: string

definition vector_action :: action where
  "vector_action = \<lparr>SchemaVersion = 1, AgentID = ''agent-001'', ActionType = ''ping'', Target = ''peer-002'',
     TimestampMs = 1700000000000, Nonce = ''0123456789abcdef0123456789abcdef''\<rparr>"

text \<open>An error of the encoder or the signer is a panic (\<open>None\<close>).\<close>

definition vector_gen_main :: "(bytes \<Rightarrow> bytes) \<Rightarrow> ed_sign \<Rightarrow> vectors option" where
  "vector_gen_main NewKeyFromSeed esign =
    (let seed = map of_nat [0..<32]; priv = NewKeyFromSeed seed; pub = drop 32 priv; a = vector_action
     in case (Canonical a, Sign esign a priv) of
       (Ok canonical, Ok sig) \<Rightarrow>
         Some \<lparr>v_seed = hexEncode seed, v_public_key = hexEncode pub, v_action = a,
           v_canonical_hex = hexEncode (bytes_of canonical), v_signature_hex = hexEncode sig\<rparr>
     | _ \<Rightarrow> None)"

definition vector_canonical :: string where
  "vector_canonical = ''{\"action_type\":\"ping\",\"agent_id\":\"agent-001\",''
    @ ''\"nonce\":\"0123456789abcdef0123456789abcdef\",\"schema_version\":1,''
    @ ''\"target\":\"peer-002\",\"timestamp\":1700000000000}''"

lemma vector_strings:
  "json_string ''ping'' = ''\"ping\"''" "json_string ''agent-001'' = ''\"agent-001\"''"
  "json_string ''peer-002'' = ''\"peer-002\"''"
  "json_string ''0123456789abcdef0123456789abcdef'' = ''\"0123456789abcdef0123456789abcdef\"''"
  by code_simp+

lemma vector_numbers: "show_i64 1 = ''1''" "show_i64 1700000000000 = ''1700000000000''"
  by (simp_all add: show_i64_def show_int_def show_nat.simps digit_char_def)

lemma Canonical_vector: "Canonical vector_action = Ok vector_canonical"
proof -
  have "Validate vector_action = None" by code_simp
  from Canonical_valid [OF this] show ?thesis
    by (simp add: vector_action_def vector_strings vector_numbers vector_canonical_def)
qed

text \<open>The bytes the repository records for other implementations are those the model computes.\<close>

lemma canonical_matches_fixture:
  "hexEncode (bytes_of vector_canonical) =
    ''7b22616374696f6e5f74797065223a2270696e67222c226167656e745f6964223a''
     @ ''226167656e742d303031222c226e6f6e6365223a22303132333435363738396162''
     @ ''6364656630313233343536373839616263646566222c22736368656d615f766572''
     @ ''73696f6e223a312c22746172676574223a22706565722d303032222c2274696d65''
     @ ''7374616d70223a313730303030303030303030307d''"
  by code_simp

lemma vectors_written:
  assumes "length (NewKeyFromSeed (map of_nat [0..<32])) = 64"
  obtains v where "vector_gen_main NewKeyFromSeed esign = Some v" "v_action v = vector_action"
    "v_canonical_hex v = hexEncode (bytes_of vector_canonical)"
proof -
  have "Sign esign vector_action (NewKeyFromSeed (map of_nat [0..<32]))
      = Ok (esign (NewKeyFromSeed (map of_nat [0..<32])) (bytes_of vector_canonical))"
    using assms by (simp add: Sign_def PrivateKeySize_def Canonical_vector)
  then have "\<exists>v. vector_gen_main NewKeyFromSeed esign = Some v \<and> v_action v = vector_action \<and>
      v_canonical_hex v = hexEncode (bytes_of vector_canonical)"
    by (simp add: vector_gen_main_def Let_def Canonical_vector)
  with that assms show thesis by auto
qed

end
