(* ===== verification/Spec2Isabelle.thy ===== *)
theory Spec2Isabelle
  imports Verifier_Race Merkle_Persist Chain_Service Vector_Gen
begin

text \<open>
  A model of the Go key service of CryptoAgent (\<open>src/go-key-service\<close>): agents' key pairs, signed
  actions, an append-only Merkle audit log of them, scoped capability tokens, periodic anchoring of the
  log's head, and the HTTP service that ties them together.

  \<^bold>\<open>How the parts interact.\<close>  An agent is registered in the key store.  A signed action goes through
  \<open>Pipeline.Submit\<close>, which validates it, checks its clock skew and its signature against the stored public key
  and, once per agent and nonce in 630 seconds, appends its canonical bytes and signature to the
  Merkle tree and publishes an event to the subscribers.  The capability service issues tokens for registered agents
  and reports every denied verification to the pipeline.  The committer's goroutine takes the tree's
  head and commits it through an anchor client; auditors check with \<open>merkle.Verifier\<close> that the live tree
  still extends an anchored head.  \<open>cmd/keyserver\<close> builds all this from the environment.

  \<^bold>\<open>Theories, in the order of the code.\<close>
  \<^item> \<open>Prelude\<close>: machine types, results (value, error or panic), HTTP replies, words and lists.
  \<^item> \<open>Encoding\<close>, \<open>Go_Strings\<close>, \<open>Json\<close>: what the program uses of \<open>encoding/hex\<close>, \<open>strconv\<close>, \<open>strings\<close>,
    \<open>bufio.Scanner\<close> and the string and object output of \<open>encoding/json\<close>, byte by byte.
  \<^item> \<open>Sha256\<close>, \<open>Sha256_Vectors\<close>: \<open>crypto/sha256\<close>, written out, and test vectors.
  \<^item> \<open>Merkle_Tree\<close> (\<open>internal/merkle/tree.go\<close>, \<open>persistence.go\<close>): the state is \<open>tree\<close>, the leaf hashes, the
    contents of the leaf file and the closed flag; \<open>Append\<close> takes the operating system's answers.  The locale
    \<open>leaf_log\<close> is the contract of an append-only log.  \<open>Merkle_Nav\<close> reads the verifiers' shift loops as
    paths in the tree; \<open>Merkle_Inclusion\<close> (\<open>inclusion.go\<close>) and \<open>Merkle_Consistency\<close> (\<open>consistency.go\<close>) hold the proof
    generators and both verifier loops; \<open>Merkle_Claims\<close> their completeness, binding and equivalence with
    the recursive definitions of RFC 6962; \<open>Merkle_Persist\<close> the leaf file.
  \<^item> \<open>Merkle_Verifier\<close>, \<open>Verifier_Claims\<close>, \<open>Verifier_Race\<close> (\<open>verifier.go\<close>, \<open>merkle/http\<close>, \<open>cmd/merkle-verify\<close>): the
    check of a historical root, with the three trees that its three separately locked reads may see.
  \<^item> \<open>Action\<close> (\<open>internal/action\<close>, \<open>internal/signing\<close>): \<open>Validate\<close>, \<open>Canonical\<close>, \<open>Sign\<close> and \<open>Verify\<close>.
  \<^item> \<open>Keystore\<close> (\<open>internal/keystore\<close>): the interface as locale \<open>key_store\<close>, interpreted by \<open>Memory\<close>, and its
    refinement of a plain map.
  \<^item> \<open>Auditlog\<close> (\<open>internal/auditlog/pipeline.go\<close>): the state \<open>pipeline\<close> (tree, replay cache, events, subscribers);
    one function per critical section, \<open>Submit\<close> split where it takes the lock.  \<open>Auditlog_Steps\<close> makes
    them a step relation for any interleaving of callers, with the invariant \<open>sys_inv\<close> by rule induction;
    \<open>Auditlog_Claims\<close> holds what follows; \<open>Auditlog_Http\<close> (\<open>auditlog/http\<close>) the endpoints and the stream.
  \<^item> \<open>Capability\<close>, \<open>Capability_Http\<close> (\<open>internal/capability\<close>): tokens, the locale \<open>revocation_store\<close>, the service
    and its endpoints.
  \<^item> \<open>Anchor\<close>, \<open>Anchor_Claims\<close> (\<open>internal/anchor\<close>): the committer and the locales \<open>evm_client\<close> and
    \<open>live_evm_client\<close>, interpreted by the in-memory client; the command line of the \<open>cast\<close> client.
  \<^item> \<open>Config\<close> (\<open>internal/config\<close>), \<open>Http_Api\<close>, \<open>Http_Claims\<close> (\<open>internal/httpapi\<close>), \<open>Keyserver\<close>
    (\<open>cmd/keyserver\<close>): loading, handlers, routes, middleware and wiring.
  \<^item> \<open>Service\<close>: the running service, requests interleaved with the two halves of a committer round.
  \<^item> \<open>Contract\<close> (\<open>src/contracts/src/AuditAnchor.sol\<close>), \<open>Chain_Service\<close>: the contract, and the service that commits to it
    through \<open>cast\<close> processes of which nothing is assumed but the call their command line spells out, among any
    transactions of other accounts.
  \<^item> \<open>Vector_Gen\<close> (\<open>internal/signing/vector_gen\<close>): the recorded signing vector, as a test of \<open>Canonical\<close>.

  \<^bold>\<open>What is shown.\<close>  Of the tree: proofs exist and verify for all positions and sizes; an accepted proof fixes
  the payload or the history, or else two different inputs that the program really hashes with one SHA-256 digest are named; history is
  never rewritten; both loops equal the recursive verifiers.  Of the pipeline: replay protection, one leaf per
  action unless the wall clock is set back, agreement of events and tree, only verified actions, streams in order, no gaps for readers.  Of tokens:
  what a signature binds, exactly when verification succeeds, revocation, reports of denials.  Of
  the service: independence of all replies from private keys, exact CORS, typed replies, frames of
  failed requests; every head the service anchors stays verifiable, on a chain shared with
  other accounts too, and in dry-run mode the head gets anchored; the in-memory client refines the contract.

  \<^bold>\<open>Parameters.\<close>  The Ed25519 primitives, the clock, the random source and identifiers, the operating system's answers
  to file operations, JSON decoding of requests and claims, \<open>time.ParseDuration\<close>, the \<open>cast\<close> process, and
  chi's choice of a route among those registered.  Theorems that need something of them state it
  as a hypothesis and have a witness.

  \<^bold>\<open>Time.\<close>  An \<open>instant\<close> has a wall clock and a monotonic reading, both arbitrary: the skew check reads the first, the
  expiry of the replay cache the second.  Instants injected without monotonic readings are those with equal
  readings; a clock that mixes the two kinds is not covered.

  \<^bold>\<open>Bounds.\<close>  Sizes and sequence numbers are 64-bit words.  A well-formed tree has fewer than \<open>2 ^ 63\<close> leaves, as a Go
  slice must.  No definition needs fuel: all recursions are structural or on a decreasing measure.

  \<^bold>\<open>Not modelled.\<close>  Log output other than the request line, response headers other than those of CORS, the
  human-readable messages of errors, the socket and signal handling of \<open>net/http\<close> and \<open>os/signal\<close>, and timers
  (a tick of the committer can come at any moment); contexts, which the modelled code only passes on (a store's
  context errors are values of its error type); \<open>GenerateKey\<close>, a call of \<open>crypto/ed25519\<close>;
  gas and the chain behind the contract.  The Python SDK and the dashboard are programs of their own.
\<close>

end
